theory Spec2Isabelle
  imports Complex_Main "HOL-Library.AList" "HOL-Library.Log_Nat"
begin

section \<open>Data model (pkg/models/response.go)\<close>

text \<open>
  \<^verbatim>\<open>type TranslationStatus string\<close> with its four constants. The type stays a string, as in
  the source, so a status outside the four constants is representable.
\<close>

type_synonym TranslationStatus = string

definition StatusIdle :: TranslationStatus where
  "StatusIdle = ''idle''"

definition StatusProcessing :: TranslationStatus where
  "StatusProcessing = ''processing''"

definition StatusCompleted :: TranslationStatus where
  "StatusCompleted = ''completed''"

definition StatusFailed :: TranslationStatus where
  "StatusFailed = ''failed''"

text \<open>
  Instants and durations are integers counting nanoseconds (\<^verbatim>\<open>time.Time\<close>,
  \<^verbatim>\<open>time.Duration\<close>). A \<^verbatim>\<open>*time.Time\<close> that may be nil is an option.
\<close>

type_synonym time = int
type_synonym duration = int

text \<open>\<^verbatim>\<open>LanguageResult\<close>: the fields carry the prefix \<open>lr_\<close>, since \<^verbatim>\<open>Status\<close> is also a
  field of \<^verbatim>\<open>StatusResponse\<close>.\<close>

record LanguageResult =
  lr_Status :: TranslationStatus
  lr_VideoURL :: string
  lr_TranslatedText :: string
  lr_Progress :: int
  lr_Error :: string
  lr_ProcessedAt :: "time option"

text \<open>
  \<^verbatim>\<open>StatusResponse\<close>. The Go map \<^verbatim>\<open>Results\<close> is an association list: lookup is
  \<^const>\<open>map_of\<close>, assignment is \<^const>\<open>AList.update\<close> (which keeps the keys distinct),
  \<^verbatim>\<open>len\<close> is \<^const>\<open>length\<close>, and \<^verbatim>\<open>range\<close> visits the list in order (Go visits a map in
  an unspecified order). A nil map and an empty map are both \<open>[]\<close>: reading, \<^verbatim>\<open>len\<close> and
  \<^verbatim>\<open>range\<close> do not tell them apart, and every write in the source is preceded by the
  \<^verbatim>\<open>make\<close> that replaces a nil map.
\<close>

record StatusResponse =
  JobID :: string
  Status :: TranslationStatus
  Results :: "(string \<times> LanguageResult) list"
  CreatedAt :: "time option"
  UpdatedAt :: time

definition terminal :: "TranslationStatus \<Rightarrow> bool" where
  "terminal st = (st = StatusCompleted \<or> st = StatusFailed)"

section \<open>The job store (internal/api/status.go)\<close>

text \<open>
  The store keeps pointers: \<^verbatim>\<open>jobs map[string]*jobEntry\<close>, and a \<^verbatim>\<open>jobEntry\<close> holds a
  \<^verbatim>\<open>*models.StatusResponse\<close>. Pointers to \<^verbatim>\<open>StatusResponse\<close> are addresses into an explicit
  heap, so that two holders of one pointer see one record.
\<close>

type_synonym addr = nat
type_synonym heap = "addr \<Rightarrow> StatusResponse"

record jobEntry =
  status :: addr
  createdAt :: time

record InMemoryJobStore =
  jobs :: "string \<rightharpoonup> jobEntry"
  jobTTL :: duration

datatype error = StatusNotFoundError string

text \<open>\<^verbatim>\<open>NewInMemoryJobStore\<close> (the cleanup goroutine it starts is \<open>CleanupExpiredJobs\<close> below,
  run at unspecified instants).\<close>

definition NewInMemoryJobStore :: "duration \<Rightarrow> InMemoryJobStore" where
  "NewInMemoryJobStore ttl = \<lparr>jobs = Map.empty, jobTTL = ttl\<rparr>"

text \<open>\<^verbatim>\<open>time.Now()\<close> is the argument \<open>now\<close> of every operation that reads the clock.\<close>

definition SetStatus ::
  "InMemoryJobStore \<Rightarrow> heap \<Rightarrow> time \<Rightarrow> string \<Rightarrow> addr \<Rightarrow> InMemoryJobStore \<times> heap" where
  "SetStatus s h now jobID p =
     (let h' = (if CreatedAt (h p) = None then h(p := (h p)\<lparr>CreatedAt := Some now\<rparr>) else h)
      in (s\<lparr>jobs := (jobs s)(jobID \<mapsto> \<lparr>status = p, createdAt = now\<rparr>)\<rparr>, h'))"

text \<open>The expiry test shared by \<^verbatim>\<open>GetStatus\<close> and \<^verbatim>\<open>UpdateStatusSafely\<close>:
  \<^verbatim>\<open>s.jobTTL > 0 && time.Since(entry.createdAt) > s.jobTTL\<close>.\<close>

definition expired :: "InMemoryJobStore \<Rightarrow> time \<Rightarrow> jobEntry \<Rightarrow> bool" where
  "expired s now entry = (jobTTL s > 0 \<and> now - createdAt entry > jobTTL s)"

definition GetStatus :: "InMemoryJobStore \<Rightarrow> time \<Rightarrow> string \<Rightarrow> error + addr" where
  "GetStatus s now jobID =
     (case jobs s jobID of
        None \<Rightarrow> Inl (StatusNotFoundError jobID)
      | Some entry \<Rightarrow>
          if expired s now entry then Inl (StatusNotFoundError jobID)
          else Inr (status entry))"

text \<open>
  \<^verbatim>\<open>UpdateStatusSafely\<close> applies the updater to the record the entry points to and stamps
  \<^verbatim>\<open>UpdatedAt\<close>. It writes the heap only; the \<^verbatim>\<open>jobs\<close> map and the TTL are not touched.
  The result is the error (if any) and the heap afterwards.
\<close>

definition UpdateStatusSafely ::
  "InMemoryJobStore \<Rightarrow> heap \<Rightarrow> time \<Rightarrow> string \<Rightarrow> (StatusResponse \<Rightarrow> StatusResponse)
     \<Rightarrow> error option \<times> heap" where
  "UpdateStatusSafely s h now jobID updater =
     (case jobs s jobID of
        None \<Rightarrow> (Some (StatusNotFoundError jobID), h)
      | Some entry \<Rightarrow>
          if expired s now entry then (Some (StatusNotFoundError jobID), h)
          else (None, h(status entry := (updater (h (status entry)))\<lparr>UpdatedAt := now\<rparr>)))"

definition CleanupExpiredJobs :: "InMemoryJobStore \<Rightarrow> time \<Rightarrow> InMemoryJobStore" where
  "CleanupExpiredJobs s now =
     (if jobTTL s \<le> 0 then s
      else s\<lparr>jobs := (\<lambda>jobID. case jobs s jobID of
                                  None \<Rightarrow> None
                                | Some entry \<Rightarrow>
                                    if now - createdAt entry > jobTTL s then None
                                    else Some entry)\<rparr>)"

text \<open>A job is live at an instant when the store holds it and it has not expired.\<close>

definition live :: "InMemoryJobStore \<Rightarrow> time \<Rightarrow> string \<Rightarrow> addr \<Rightarrow> bool" where
  "live s now jobID p =
     (case jobs s jobID of
        None \<Rightarrow> False
      | Some entry \<Rightarrow> status entry = p \<and> \<not> expired s now entry)"

section \<open>The updaters of the coordinator (processTranslation, updateJobError)\<close>

text \<open>
  The four closures the coordinator hands to \<^verbatim>\<open>UpdateStatusSafely\<close>. Each takes the
  instant its own \<^verbatim>\<open>time.Now()\<close> returns.
\<close>

text \<open>\<^verbatim>\<open>&models.LanguageResult{Status: models.StatusFailed, Error: msg}\<close>; the other fields
  keep Go's zero values.\<close>

definition failedResult :: "string \<Rightarrow> LanguageResult" where
  "failedResult msg =
     \<lparr>lr_Status = StatusFailed, lr_VideoURL = [], lr_TranslatedText = [], lr_Progress = 0,
      lr_Error = msg, lr_ProcessedAt = None\<rparr>"

text \<open>The closure of the cancellation branch of the fan-out loop: the language is marked
  failed with the cause \<^verbatim>\<open>"processing cancelled"\<close>.\<close>

definition markCancelled :: "string \<Rightarrow> time \<Rightarrow> StatusResponse \<Rightarrow> StatusResponse" where
  "markCancelled lang now st =
     st\<lparr>Results := AList.update lang (failedResult ''processing cancelled'') (Results st),
        UpdatedAt := now\<rparr>"

text \<open>The closure of a unit of work: \<^verbatim>\<open>status.Results[lang] = result\<close>.\<close>

definition storeResult ::
  "string \<Rightarrow> LanguageResult \<Rightarrow> time \<Rightarrow> StatusResponse \<Rightarrow> StatusResponse" where
  "storeResult lang result now st =
     st\<lparr>Results := AList.update lang result (Results st), UpdatedAt := now\<rparr>"

text \<open>The aggregation closure. Its \<^verbatim>\<open>range\<close> loop carries the two flags
  \<^verbatim>\<open>allCompleted\<close> and \<^verbatim>\<open>anyFailed\<close>.\<close>

fun aggregateLoop :: "(string \<times> LanguageResult) list \<Rightarrow> bool \<times> bool \<Rightarrow> bool \<times> bool" where
  "aggregateLoop [] (allCompleted, anyFailed) = (allCompleted, anyFailed)"
| "aggregateLoop ((lang, result) # rest) (allCompleted, anyFailed) =
     (if lr_Status result \<noteq> StatusCompleted
      then aggregateLoop rest
             (False, if lr_Status result = StatusFailed then True else anyFailed)
      else aggregateLoop rest (allCompleted, anyFailed))"

definition aggregateStatus :: "time \<Rightarrow> StatusResponse \<Rightarrow> StatusResponse" where
  "aggregateStatus now st =
     (case aggregateLoop (Results st) (True, False) of
        (allCompleted, anyFailed) \<Rightarrow>
          (if allCompleted then st\<lparr>Status := StatusCompleted\<rparr>
           else if anyFailed then st\<lparr>Status := StatusFailed\<rparr>
           else st)\<lparr>UpdatedAt := now\<rparr>)"

text \<open>The closure of \<^verbatim>\<open>updateJobError\<close>, and \<^verbatim>\<open>updateJobError\<close> itself (the error that
  \<^verbatim>\<open>UpdateStatusSafely\<close> returns is dropped, as in the source; the webhook goroutine only
  reads).\<close>

definition jobErrorUpdater :: "string \<Rightarrow> time \<Rightarrow> StatusResponse \<Rightarrow> StatusResponse" where
  "jobErrorUpdater errorMsg now st =
     (let st1 = st\<lparr>Status := StatusFailed, UpdatedAt := now\<rparr>
      in if length (Results st1) = 0
         then st1\<lparr>Results := [(''error'', failedResult errorMsg)]\<rparr>
         else st1)"

definition updateJobError ::
  "InMemoryJobStore \<Rightarrow> heap \<Rightarrow> time \<Rightarrow> string \<Rightarrow> string \<Rightarrow> heap" where
  "updateJobError s h now jobID errorMsg =
     snd (UpdateStatusSafely s h now jobID (jobErrorUpdater errorMsg now))"

section \<open>One unit of work (processLanguage)\<close>

text \<open>
  The context is seen through \<^verbatim>\<open>ctx.Done()\<close> and \<^verbatim>\<open>ctx.Err()\<close>. A \<open>ctx_view\<close> gives, for
  the source line of each such test, \<open>None\<close> while the context is active and
  \<open>Some e\<close> with \<open>e = ctx.Err().Error()\<close> once it is done.

  The collaborators (translation, speech synthesis, remux, storage, temporary files) are
  outside the core: a \<open>lang_env\<close> holds what each of them answers in one run, an error
  text (\<^verbatim>\<open>err.Error()\<close>) or a value.
\<close>

type_synonym ctx_view = "nat \<Rightarrow> string option"

record lang_env =
  translateText :: "string + string"
  createTempAudio :: "string + string"
  generateTTS :: "string option"
  createTempVideo :: "string + string"
  syncAudioWithVideo :: "string option"
  upload :: "string option"
  getPublicURL :: string
  processedNow :: time

definition processLanguage :: "ctx_view \<Rightarrow> lang_env \<Rightarrow> LanguageResult" where
  "processLanguage ctx env =
     (case ctx 597 of
        Some e \<Rightarrow> failedResult (''processing cancelled: '' @ e)
      | None \<Rightarrow>
     (case translateText env of
        Inl err \<Rightarrow>
          (case ctx 610 of
             Some e \<Rightarrow> failedResult (''translation cancelled: '' @ e)
           | None \<Rightarrow> failedResult (''translation failed: '' @ err))
      | Inr translatedText \<Rightarrow>
     (case ctx 626 of
        Some e \<Rightarrow> failedResult (''processing cancelled: '' @ e)
      | None \<Rightarrow>
     (case createTempAudio env of
        Inl err \<Rightarrow> failedResult (''failed to create temp file: '' @ err)
      | Inr audioPath \<Rightarrow>
     (case generateTTS env of
        Some err \<Rightarrow>
          (case ctx 647 of
             Some e \<Rightarrow> failedResult (''TTS generation cancelled: '' @ e)
           | None \<Rightarrow> failedResult (''TTS generation failed: '' @ err))
      | None \<Rightarrow>
     (case ctx 662 of
        Some e \<Rightarrow> failedResult (''processing cancelled: '' @ e)
      | None \<Rightarrow>
     (case createTempVideo env of
        Inl err \<Rightarrow> failedResult (''failed to create temp file: '' @ err)
      | Inr outputVideoPath \<Rightarrow>
     (case syncAudioWithVideo env of
        Some err \<Rightarrow>
          (case ctx 683 of
             Some e \<Rightarrow> failedResult (''audio sync cancelled: '' @ e)
           | None \<Rightarrow> failedResult (''audio sync failed: '' @ err))
      | None \<Rightarrow>
     (case upload env of
        Some err \<Rightarrow> failedResult (''upload failed: '' @ err)
      | None \<Rightarrow>
          \<lparr>lr_Status = StatusCompleted, lr_VideoURL = getPublicURL env,
           lr_TranslatedText = translatedText, lr_Progress = 100, lr_Error = [],
           lr_ProcessedAt = Some (processedNow env)\<rparr>)))))))))"

section \<open>Shared preprocessing (processTranslation, up to the fan-out)\<close>

text \<open>
  What the collaborators of the preprocessing answer in one run. The video duration and
  the configured maximum are compared as numbers; the text of the message built by
  \<^verbatim>\<open>fmt.Sprintf\<close> is a field of its own.
\<close>

record pre_env =
  parseGCSURL :: "string + string \<times> string"
  download :: "string + string"
  getVideoDuration :: "string + rat"
  maxVideoDuration :: rat
  durationMessage :: string
  extractAudio :: "string + string"
  speechToText :: "string + string \<times> string"
  reqSourceLanguage :: string

text \<open>What the preprocessing hands to the fan-out.\<close>

record prepared =
  originalText :: string
  sourceLanguage :: string
  videoPath :: string
  videoDuration :: rat

text \<open>Lines 439 to 446: the language the transcription reports, else the request's
  hint, else \<^verbatim>\<open>"auto"\<close>.\<close>

definition effectiveSourceLanguage :: "string \<Rightarrow> string \<Rightarrow> string" where
  "effectiveSourceLanguage transcribed hint =
     (if transcribed = [] then (if hint = [] then ''auto'' else hint) else transcribed)"

text \<open>The preprocessing returns the message it passes to \<^verbatim>\<open>updateJobError\<close> (\<open>Inl\<close>), or
  the prepared data (\<open>Inr\<close>).\<close>

definition preprocess :: "ctx_view \<Rightarrow> pre_env \<Rightarrow> string + prepared" where
  "preprocess ctx env =
     (case ctx 352 of
        Some e \<Rightarrow> Inl (''processing cancelled: '' @ e)
      | None \<Rightarrow>
     (case parseGCSURL env of
        Inl err \<Rightarrow> Inl (''failed to parse video URL: '' @ err)
      | Inr bucket_path \<Rightarrow>
     (case download env of
        Inl err \<Rightarrow>
          (case ctx 369 of
             Some e \<Rightarrow> Inl (''processing cancelled during download: '' @ e)
           | None \<Rightarrow> Inl (''failed to download video: '' @ err))
      | Inr vpath \<Rightarrow>
     (case ctx 380 of
        Some e \<Rightarrow> Inl (''processing cancelled: '' @ e)
      | None \<Rightarrow>
     (case getVideoDuration env of
        Inl err \<Rightarrow>
          (case ctx 390 of
             Some e \<Rightarrow> Inl (''processing cancelled during duration check: '' @ e)
           | None \<Rightarrow> Inl (''failed to get video duration: '' @ err))
      | Inr vduration \<Rightarrow>
     (if vduration > maxVideoDuration env then Inl (durationMessage env)
      else
     (case extractAudio env of
        Inl err \<Rightarrow>
          (case ctx 409 of
             Some e \<Rightarrow> Inl (''processing cancelled during audio extraction: '' @ e)
           | None \<Rightarrow> Inl (''failed to extract audio: '' @ err))
      | Inr audioPath \<Rightarrow>
     (case ctx 420 of
        Some e \<Rightarrow> Inl (''processing cancelled: '' @ e)
      | None \<Rightarrow>
     (case speechToText env of
        Inl err \<Rightarrow>
          (case ctx 431 of
             Some e \<Rightarrow> Inl (''transcription cancelled: '' @ e)
           | None \<Rightarrow> Inl (''failed to transcribe audio: '' @ err))
      | Inr (text, language) \<Rightarrow>
     (if text = [] then Inl ''transcription returned empty text''
      else
     (case ctx 458 of
        Some e \<Rightarrow> Inl (''processing cancelled: '' @ e)
      | None \<Rightarrow>
          Inr \<lparr>originalText = text,
               sourceLanguage = effectiveSourceLanguage language (reqSourceLanguage env),
               videoPath = vpath, videoDuration = vduration\<rparr>)))))))))))"

section \<open>Acceptance and the fan-out/fan-in of processTranslation\<close>

text \<open>\<^verbatim>\<open>handleTranslate\<close>, from the job identifier on: the initial record is allocated at
  the address \<open>p\<close> and handed to \<^verbatim>\<open>SetStatus\<close>. The same pointer is the \<^verbatim>\<open>jobStatus\<close>
  argument of \<^verbatim>\<open>processTranslation\<close>.\<close>

definition handleTranslate_accept ::
  "InMemoryJobStore \<Rightarrow> heap \<Rightarrow> time \<Rightarrow> string \<Rightarrow> addr \<Rightarrow> InMemoryJobStore \<times> heap" where
  "handleTranslate_accept s h now jobID p =
     SetStatus s
       (h(p := \<lparr>JobID = jobID, Status = StatusProcessing, Results = [],
                CreatedAt = Some now, UpdatedAt = now\<rparr>))
       now jobID p"

text \<open>
  What one call of \<^verbatim>\<open>processTranslation\<close> is given: the global \<^verbatim>\<open>jobStore\<close>, the
  identifier, the \<^verbatim>\<open>jobStatus\<close> pointer and \<^verbatim>\<open>req.TargetLanguages\<close>. The steps below write
  the heap only, so the store is part of this fixed data.
\<close>

record job =
  j_store :: InMemoryJobStore
  j_id :: string
  j_status :: addr
  j_targets :: "string list"

text \<open>
  The coordinator runs beside the goroutines it starts, so the fan-out and fan-in are a
  step function over configurations, driven by a list of events: any interleaving of
  the coordinator's own steps, the goroutines' writes, the cancellation of the context
  and the timer is one such list. Each access to the record goes through
  \<^verbatim>\<open>UpdateStatusSafely\<close> (one atomic step under the store's lock), except the unlocked read
  \<^verbatim>\<open>jobStatus.Results[lang]\<close> of the cancellation branch, which is a step of its own.

  The places of the coordinator:
  \<^item> \<open>Loop i\<close>: before iteration \<open>i\<close> of the loop over the target languages (line 468);
  \<^item> \<open>MarkCheck k\<close>: in the cancellation branch, before the test of line 475 for the
    \<open>k\<close>-th language;
  \<^item> \<open>MarkWrite k\<close>: before the \<^verbatim>\<open>UpdateStatusSafely\<close> of line 476 for that language;
  \<^item> \<open>LoopReport\<close>: before \<^verbatim>\<open>updateJobError\<close> of line 488, every language marked;
  \<^item> \<open>Wait\<close>: blocked in the \<^verbatim>\<open>select\<close> of line 519;
  \<^item> \<open>Grace\<close>: blocked in the \<^verbatim>\<open>select\<close> of line 528, the timer of five seconds running;
  \<^item> \<open>FinalCheck\<close>: before the \<^verbatim>\<open>select\<close> of line 537;
  \<^item> \<open>FinalReport\<close>: before \<^verbatim>\<open>updateJobError\<close> of line 539;
  \<^item> \<open>Aggregate\<close>: before the \<^verbatim>\<open>UpdateStatusSafely\<close> of line 546;
  \<^item> \<open>Returned\<close>: \<^verbatim>\<open>processTranslation\<close> has returned.
\<close>

datatype pc =
    Loop nat
  | MarkCheck nat
  | MarkWrite nat
  | LoopReport
  | Wait
  | Grace
  | FinalCheck
  | FinalReport
  | Aggregate
  | Returned

text \<open>
  A configuration: the heap, the coordinator's place, the languages of the goroutines
  that were started and have not finished (the \<^verbatim>\<open>WaitGroup\<close> counter is the length of this
  list), the context (\<open>None\<close> while active, \<open>Some e\<close> once done with
  \<open>e = ctx.Err().Error()\<close>), the instant of the latest event, and the instant at which
  the timer of line 526 was started.
\<close>

record config =
  c_heap :: heap
  c_pc :: pc
  c_inflight :: "string list"
  c_ctx :: "string option"
  c_clock :: time
  c_timer :: time

text \<open>One sequential step of the coordinator at the instant \<open>now\<close>. In \<open>Wait\<close> and
  \<open>Grace\<close> it is blocked: only a channel event moves it.\<close>

definition main_step :: "job \<Rightarrow> time \<Rightarrow> config \<Rightarrow> config" where
  "main_step j now c =
     (case c_pc c of
        Loop i \<Rightarrow>
          if i < length (j_targets j) then
            (case c_ctx c of
               Some e \<Rightarrow> c\<lparr>c_pc := MarkCheck 0\<rparr>
             | None \<Rightarrow>
                 c\<lparr>c_inflight := c_inflight c @ [j_targets j ! i], c_pc := Loop (Suc i)\<rparr>)
          else c\<lparr>c_pc := Wait\<rparr>
      | MarkCheck k \<Rightarrow>
          if k < length (j_targets j) then
            (if map_of (Results (c_heap c (j_status j))) (j_targets j ! k) = None
             then c\<lparr>c_pc := MarkWrite k\<rparr>
             else c\<lparr>c_pc := MarkCheck (Suc k)\<rparr>)
          else c\<lparr>c_pc := LoopReport\<rparr>
      | MarkWrite k \<Rightarrow>
          if k < length (j_targets j) then
            c\<lparr>c_heap := snd (UpdateStatusSafely (j_store j) (c_heap c) now (j_id j)
                               (markCancelled (j_targets j ! k) now)),
              c_pc := MarkCheck (Suc k)\<rparr>
          else c
      | LoopReport \<Rightarrow>
          (case c_ctx c of
             Some e \<Rightarrow>
               c\<lparr>c_heap := updateJobError (j_store j) (c_heap c) now (j_id j)
                               (''processing cancelled: '' @ e),
                 c_pc := Returned\<rparr>
           | None \<Rightarrow> c)
      | Wait \<Rightarrow> c
      | Grace \<Rightarrow> c
      | FinalCheck \<Rightarrow>
          (case c_ctx c of
             Some e \<Rightarrow> c\<lparr>c_pc := FinalReport\<rparr>
           | None \<Rightarrow> c\<lparr>c_pc := Aggregate\<rparr>)
      | FinalReport \<Rightarrow>
          (case c_ctx c of
             Some e \<Rightarrow>
               c\<lparr>c_heap := updateJobError (j_store j) (c_heap c) now (j_id j)
                               (''processing cancelled: '' @ e),
                 c_pc := Returned\<rparr>
           | None \<Rightarrow> c)
      | Aggregate \<Rightarrow>
          c\<lparr>c_heap := snd (UpdateStatusSafely (j_store j) (c_heap c) now (j_id j)
                             (aggregateStatus now)),
            c_pc := Returned\<rparr>
      | Returned \<Rightarrow> c)"

text \<open>
  The events, each at an instant \<open>now\<close>:
  \<^item> \<open>Main now\<close>: the coordinator takes its next step;
  \<^item> \<open>Unit lang ctx env now\<close>: the goroutine started for \<open>lang\<close> has run
    \<^verbatim>\<open>processLanguage\<close> (seeing the context as \<open>ctx\<close> and the collaborators as \<open>env\<close>),
    writes its result and calls \<^verbatim>\<open>wg.Done()\<close>;
  \<^item> \<open>Cancel e now\<close>: the context is cancelled or its deadline passes;
  \<^item> \<open>DoneClosed now\<close>: a \<^verbatim>\<open>select\<close> receives from \<^verbatim>\<open>done\<close>, which is closed once the
    \<^verbatim>\<open>WaitGroup\<close> counter is zero;
  \<^item> \<open>CtxDone now\<close>: the \<^verbatim>\<open>select\<close> of line 519 receives from \<^verbatim>\<open>ctx.Done()\<close>, and the
    timer of line 526 is started;
  \<^item> \<open>Timeout now\<close>: the \<^verbatim>\<open>select\<close> of line 528 receives from the timer, five seconds
    or more after it was started.

  An event that cannot happen in a configuration leaves it as it is; so does an event
  whose instant lies before the instant of the latest event, since time does not run
  backwards. The semaphore
  only delays a goroutine between its start and its run; it has at least one permit
  (\<^verbatim>\<open>Config.Validate\<close> refuses a lower value), so it is not a place of its own. The
  clock is read twice in an update, by the closure and then by \<^verbatim>\<open>UpdateStatusSafely\<close>,
  whose stamp replaces the closure's: a step has one instant for both.
\<close>

datatype event =
    Main time
  | Unit string ctx_view lang_env time
  | Cancel string time
  | DoneClosed time
  | CtxDone time
  | Timeout time

fun instant :: "event \<Rightarrow> time" where
  "instant (Main now) = now"
| "instant (Unit lang ctx env now) = now"
| "instant (Cancel e now) = now"
| "instant (DoneClosed now) = now"
| "instant (CtxDone now) = now"
| "instant (Timeout now) = now"

text \<open>\<^verbatim>\<open>5 * time.Second\<close>, in nanoseconds.\<close>

definition graceTimeout :: duration where
  "graceTimeout = 5000000000"

text \<open>What an event does when it happens.\<close>

fun fire :: "job \<Rightarrow> event \<Rightarrow> config \<Rightarrow> config" where
  "fire j (Main now) c = main_step j now c"
| "fire j (Unit lang ctx env now) c =
     (if lang \<in> set (c_inflight c) then
        c\<lparr>c_heap := snd (UpdateStatusSafely (j_store j) (c_heap c) now (j_id j)
                           (storeResult lang (processLanguage ctx env) now)),
          c_inflight := remove1 lang (c_inflight c)\<rparr>
      else c)"
| "fire j (Cancel e now) c = (if c_ctx c = None then c\<lparr>c_ctx := Some e\<rparr> else c)"
| "fire j (DoneClosed now) c =
     (if (c_pc c = Wait \<or> c_pc c = Grace) \<and> c_inflight c = []
      then c\<lparr>c_pc := FinalCheck\<rparr> else c)"
| "fire j (CtxDone now) c =
     (if c_pc c = Wait \<and> c_ctx c \<noteq> None then c\<lparr>c_pc := Grace, c_timer := now\<rparr> else c)"
| "fire j (Timeout now) c =
     (if c_pc c = Grace \<and> c_timer c + graceTimeout \<le> now then c\<lparr>c_pc := FinalCheck\<rparr> else c)"

definition step :: "job \<Rightarrow> event \<Rightarrow> config \<Rightarrow> config" where
  "step j ev c =
     (if instant ev < c_clock c then c else fire j ev (c\<lparr>c_clock := instant ev\<rparr>))"

fun run :: "job \<Rightarrow> event list \<Rightarrow> config \<Rightarrow> config" where
  "run j [] c = c"
| "run j (ev # evs) c = run j evs (step j ev c)"

text \<open>
  \<^verbatim>\<open>processTranslation\<close> up to the fan-out: a failed preprocessing reports through
  \<^verbatim>\<open>updateJobError\<close> and returns, with no goroutine started; otherwise the coordinator
  stands before the first iteration of the loop, the context having been seen active
  at line 458.
\<close>

definition processTranslation_start ::
  "job \<Rightarrow> ctx_view \<Rightarrow> pre_env \<Rightarrow> time \<Rightarrow> heap \<Rightarrow> config" where
  "processTranslation_start j ctx env now h =
     (case preprocess ctx env of
        Inl errorMsg \<Rightarrow>
          \<lparr>c_heap = updateJobError (j_store j) h now (j_id j) errorMsg, c_pc = Returned,
           c_inflight = [], c_ctx = None, c_clock = now, c_timer = 0\<rparr>
      | Inr prep \<Rightarrow>
          \<lparr>c_heap = h, c_pc = Loop 0, c_inflight = [], c_ctx = None, c_clock = now,
           c_timer = 0\<rparr>)"

text \<open>The instants of an event at which the store is written, and the events at which
  the job of \<open>j\<close> is live.\<close>

fun live_event :: "job \<Rightarrow> event \<Rightarrow> bool" where
  "live_event j (Main now) = live (j_store j) now (j_id j) (j_status j)"
| "live_event j (Unit lang ctx env now) = live (j_store j) now (j_id j) (j_status j)"
| "live_event j ev = True"

section \<open>The rate limiter (internal/api/ratelimit.go)\<close>

subsection \<open>Go's arithmetic: float64, int, time.Duration\<close>

text \<open>
  \<^verbatim>\<open>Allow\<close> computes the refill in \<^verbatim>\<open>float64\<close>. A finite \<^verbatim>\<open>float64\<close> is a rational
  \<open>m * 2 ^ e\<close> with \<open>\<bar>m\<bar> < 2 ^ 53\<close>, and each operation of IEEE 754 returns the exact
  result rounded to the nearest such number, ties to the even significand. \<open>float64 x\<close>
  is that rounding of the rational \<open>x\<close>. The exponent is not bounded here: the operands
  of \<^verbatim>\<open>Allow\<close> (a count of seconds below \<open>2 ^ 34\<close>, a fraction of one second counted in
  nanoseconds, a 64-bit rate divided by 60) stay far inside the normal range of
  \<^verbatim>\<open>float64\<close>, where neither overflow nor gradual underflow occurs.
\<close>

definition pow2 :: "int \<Rightarrow> rat" where
  "pow2 e = (if 0 \<le> e then 2 ^ nat e else 1 / 2 ^ nat (- e))"

text \<open>Rounding a non-negative rational to the nearest integer, ties to even.\<close>

definition round_even :: "rat \<Rightarrow> int" where
  "round_even x =
     (let q = \<lfloor>x\<rfloor>; r = x - of_int q
      in if r < 1 / 2 then q
         else if 1 / 2 < r then q + 1
         else if even q then q else q + 1)"

text \<open>For \<open>x > 0\<close>, the exponent \<open>e\<close> with \<open>2 ^ 52 \<le> x / 2 ^ e < 2 ^ 53\<close>: the bit
  lengths of numerator and denominator give it up to one.\<close>

definition binade :: "rat \<Rightarrow> int" where
  "binade x =
     (case quotient_of x of
        (a, b) \<Rightarrow>
          (let e0 = bitlen a - bitlen b - 53
           in if x / pow2 e0 < 2 ^ 53 then e0 else e0 + 1))"

definition float64 :: "rat \<Rightarrow> rat" where
  "float64 x =
     (if x = 0 then 0
      else (let e = binade \<bar>x\<bar>
            in sgn x * of_int (round_even (\<bar>x\<bar> / pow2 e)) * pow2 e))"

text \<open>Go's integer division truncates toward zero, and the remainder takes the sign of
  the dividend.\<close>

definition go_quo :: "int \<Rightarrow> int \<Rightarrow> int" where
  "go_quo a b = sgn a * sgn b * (\<bar>a\<bar> div \<bar>b\<bar>)"

definition go_rem :: "int \<Rightarrow> int \<Rightarrow> int" where
  "go_rem a b = a - b * go_quo a b"

text \<open>\<^verbatim>\<open>int\<close> has 64 bits: an integer result wraps around.\<close>

definition wrap64 :: "int \<Rightarrow> int" where
  "wrap64 x = (x + 2 ^ 63) mod 2 ^ 64 - 2 ^ 63"

text \<open>\<^verbatim>\<open>int(f)\<close> drops the fraction. For a value outside the 64 bits the language leaves
  the result to the implementation; amd64 gives the least integer.\<close>

definition go_int :: "rat \<Rightarrow> int" where
  "go_int x =
     (let t = (if 0 \<le> x then \<lfloor>x\<rfloor> else \<lceil>x\<rceil>)
      in if - (2 ^ 63) \<le> t \<and> t < 2 ^ 63 then t else - (2 ^ 63))"

text \<open>\<^verbatim>\<open>t.Sub(u)\<close>: the difference as a \<^verbatim>\<open>Duration\<close>, saturated at the ends of the 64 bits.\<close>

definition Sub :: "time \<Rightarrow> time \<Rightarrow> duration" where
  "Sub t u =
     (let d = t - u
      in if d < - (2 ^ 63) then - (2 ^ 63) else if 2 ^ 63 - 1 < d then 2 ^ 63 - 1 else d)"

text \<open>\<^verbatim>\<open>Duration.Seconds\<close>:
  \<^verbatim>\<open>sec := d / Second; nsec := d % Second; return float64(sec) + float64(nsec)/1e9\<close>.\<close>

definition Seconds :: "duration \<Rightarrow> rat" where
  "Seconds d =
     (let sec = go_quo d 1000000000; nsec = go_rem d 1000000000
      in float64 (float64 (of_int sec) + float64 (float64 (of_int nsec) / 1000000000)))"

subsection \<open>The limiter\<close>

record tokenBucket =
  tokens :: int
  lastRefill :: time

record RateLimiter =
  requestsPerMinute :: int
  buckets :: "string \<rightharpoonup> tokenBucket"

definition NewRateLimiter :: "int \<Rightarrow> RateLimiter" where
  "NewRateLimiter rpm = \<lparr>requestsPerMinute = rpm, buckets = Map.empty\<rparr>"

text \<open>\<^verbatim>\<open>tokensPerSecond := float64(rl.requestsPerMinute) / 60.0\<close>.\<close>

definition tokensPerSecond :: "int \<Rightarrow> rat" where
  "tokensPerSecond rpm = float64 (float64 (of_int rpm) / 60)"

text \<open>\<^verbatim>\<open>tokensToAdd := int(elapsed * tokensPerSecond)\<close>, for the elapsed duration \<open>d\<close>.\<close>

definition tokensToAdd :: "int \<Rightarrow> duration \<Rightarrow> int" where
  "tokensToAdd rpm d = go_int (float64 (Seconds d * tokensPerSecond rpm))"

text \<open>The refill of one bucket (lines 55 to 67).\<close>

definition refill :: "int \<Rightarrow> time \<Rightarrow> tokenBucket \<Rightarrow> tokenBucket" where
  "refill rpm now bucket =
     (let add = tokensToAdd rpm (Sub now (lastRefill bucket))
      in if 0 < add then
           (let t = wrap64 (tokens bucket + add)
            in bucket\<lparr>tokens := (if rpm < t then rpm else t), lastRefill := now\<rparr>)
         else bucket)"

text \<open>\<^verbatim>\<open>Allow\<close>: \<^verbatim>\<open>LoadOrStore\<close> keeps the bucket of the identifier or stores a full one; the
  result is the answer and the limiter afterwards.\<close>

definition Allow :: "RateLimiter \<Rightarrow> string \<Rightarrow> time \<Rightarrow> bool \<times> RateLimiter" where
  "Allow rl identifier now =
     (let bucket = (case buckets rl identifier of
                      None \<Rightarrow> \<lparr>tokens = requestsPerMinute rl, lastRefill = now\<rparr>
                    | Some b \<Rightarrow> b);
          bucket1 = refill (requestsPerMinute rl) now bucket
      in if 0 < tokens bucket1
         then (True, rl\<lparr>buckets := (buckets rl)(identifier \<mapsto>
                                      bucket1\<lparr>tokens := tokens bucket1 - 1\<rparr>)\<rparr>)
         else (False, rl\<lparr>buckets := (buckets rl)(identifier \<mapsto> bucket1)\<rparr>))"

text \<open>A burst: \<open>n\<close> calls for one identifier at one instant.\<close>

fun burst :: "RateLimiter \<Rightarrow> string \<Rightarrow> time \<Rightarrow> nat \<Rightarrow> bool list \<times> RateLimiter" where
  "burst rl identifier now 0 = ([], rl)"
| "burst rl identifier now (Suc n) =
     (case Allow rl identifier now of
        (a, rl1) \<Rightarrow> (case burst rl1 identifier now n of (as, rl2) \<Rightarrow> (a # as, rl2)))"

text \<open>\<^verbatim>\<open>cleanup\<close> (lines 94 to 107), which the goroutine of \<^verbatim>\<open>startCleanup\<close> calls on each
  tick of five minutes until \<^verbatim>\<open>Stop\<close>: a bucket whose last refill lies before
  \<^verbatim>\<open>time.Now().Add(-1 * time.Hour)\<close> is deleted.\<close>

definition cleanup :: "RateLimiter \<Rightarrow> time \<Rightarrow> RateLimiter" where
  "cleanup rl now =
     (let cutoff = now - 3600000000000
      in rl\<lparr>buckets := (\<lambda>identifier.
               case buckets rl identifier of
                 None \<Rightarrow> None
               | Some b \<Rightarrow> if lastRefill b < cutoff then None else Some b)\<rparr>)"

text \<open>What happens to a limiter: calls of \<^verbatim>\<open>Allow\<close> for any identifiers and passes of
  \<^verbatim>\<open>cleanup\<close>, at any instants, in any order.\<close>

datatype limiter_call =
    CallAllow string time
  | CallCleanup time

fun limiter_run :: "RateLimiter \<Rightarrow> limiter_call list \<Rightarrow> RateLimiter" where
  "limiter_run rl [] = rl"
| "limiter_run rl (CallAllow identifier now # cs) =
     limiter_run (snd (Allow rl identifier now)) cs"
| "limiter_run rl (CallCleanup now # cs) = limiter_run (cleanup rl now) cs"

text \<open>The sum of line 61, \<^verbatim>\<open>bucket.tokens += tokensToAdd\<close>, stays below \<open>2 ^ 63\<close> when
  \<^verbatim>\<open>Allow\<close> is called at \<open>now\<close> on this bucket; and it does so in every call of a
  sequence.\<close>

definition refill_fits :: "int \<Rightarrow> time \<Rightarrow> tokenBucket \<Rightarrow> bool" where
  "refill_fits rpm now bucket =
     (let add = tokensToAdd rpm (Sub now (lastRefill bucket))
      in add \<le> 0 \<or> tokens bucket + add < 2 ^ 63)"

fun refills_fit :: "RateLimiter \<Rightarrow> limiter_call list \<Rightarrow> bool" where
  "refills_fit rl [] = True"
| "refills_fit rl (CallAllow identifier now # cs) =
     ((case buckets rl identifier of
         None \<Rightarrow> True
       | Some b \<Rightarrow> refill_fits (requestsPerMinute rl) now b)
      \<and> refills_fit (snd (Allow rl identifier now)) cs)"
| "refills_fit rl (CallCleanup now # cs) = refills_fit (cleanup rl now) cs"

section \<open>Readers, sequences of updates, and example values\<close>

text \<open>What a caller of \<^verbatim>\<open>GetStatus\<close> reads through the pointer it is given (the status
  handler encodes the record at once; the webhook goroutine passes it on).\<close>

definition readStatus ::
  "InMemoryJobStore \<Rightarrow> heap \<Rightarrow> time \<Rightarrow> string \<Rightarrow> error + StatusResponse" where
  "readStatus s h now jobID =
     (case GetStatus s now jobID of
        Inl err \<Rightarrow> Inl err
      | Inr p \<Rightarrow> Inr (h p))"

text \<open>The updates the coordinator performs on a job, by the closure handed to
  \<^verbatim>\<open>UpdateStatusSafely\<close>, and a sequence of them at given instants on given jobs.\<close>

datatype job_op =
    OpAggregate
  | OpJobError string
  | OpStoreResult string ctx_view lang_env
  | OpMarkCancelled string

fun updater_of :: "job_op \<Rightarrow> time \<Rightarrow> StatusResponse \<Rightarrow> StatusResponse" where
  "updater_of OpAggregate now = aggregateStatus now"
| "updater_of (OpJobError errorMsg) now = jobErrorUpdater errorMsg now"
| "updater_of (OpStoreResult lang ctx env) now = storeResult lang (processLanguage ctx env) now"
| "updater_of (OpMarkCancelled lang) now = markCancelled lang now"

fun apply_ops :: "InMemoryJobStore \<Rightarrow> heap \<Rightarrow> (time \<times> string \<times> job_op) list \<Rightarrow> heap" where
  "apply_ops s h [] = h"
| "apply_ops s h ((now, jobID, opn) # ops) =
     apply_ops s (snd (UpdateStatusSafely s h now jobID (updater_of opn now))) ops"

text \<open>Example values: a store with a TTL of ten nanoseconds that accepted the job
  \<open>''job-1''\<close> at the instant 100, its record allocated at the address 0.\<close>

definition ex_blank :: StatusResponse where
  "ex_blank = \<lparr>JobID = [], Status = [], Results = [], CreatedAt = None, UpdatedAt = 0\<rparr>"

definition ex_store :: InMemoryJobStore where
  "ex_store = fst (handleTranslate_accept (NewInMemoryJobStore 10) (\<lambda>p. ex_blank) 100 ''job-1'' 0)"

definition ex_heap :: heap where
  "ex_heap = snd (handleTranslate_accept (NewInMemoryJobStore 10) (\<lambda>p. ex_blank) 100 ''job-1'' 0)"

text \<open>A collaborator environment in which every step of a unit succeeds, and the view
  of a context that is never cancelled.\<close>

definition ex_env :: lang_env where
  "ex_env =
     \<lparr>translateText = Inr ''hello'', createTempAudio = Inr ''/tmp/a.mp3'', generateTTS = None,
      createTempVideo = Inr ''/tmp/v.mp4'', syncAudioWithVideo = None, upload = None,
      getPublicURL = ''gs://out/v.mp4'', processedNow = 104\<rparr>"

definition ex_active :: ctx_view where
  "ex_active = (\<lambda>line. None)"


definition ex_pre :: pre_env where
  "ex_pre =
     \<lparr>parseGCSURL = Inr (''in'', ''v.mp4''), download = Inr ''/tmp/v.mp4'',
      getVideoDuration = Inr 30, maxVideoDuration = 600, durationMessage = [],
      extractAudio = Inr ''/tmp/v.wav'', speechToText = Inr (''bonjour'', ''fr''),
      reqSourceLanguage = []\<rparr>"




text \<open>A store with the default TTL of 24 hours that accepted the job \<open>''job-1''\<close> at the
  instant 0, its record allocated at the address 0; the job with the target languages
  \<open>en\<close> and \<open>ar\<close>; and the configuration in which its fan-out begins, the preprocessing
  having taken one minute.\<close>

definition ex_day_store :: InMemoryJobStore where
  "ex_day_store =
     fst (handleTranslate_accept (NewInMemoryJobStore 86400000000000) (\<lambda>p. ex_blank) 0 ''job-1'' 0)"

definition ex_day_heap :: heap where
  "ex_day_heap =
     snd (handleTranslate_accept (NewInMemoryJobStore 86400000000000) (\<lambda>p. ex_blank) 0 ''job-1'' 0)"

definition ex_job :: job where
  "ex_job =
     \<lparr>j_store = ex_day_store, j_id = ''job-1'', j_status = 0, j_targets = [''en'', ''ar'']\<rparr>"

definition ex_c0 :: config where
  "ex_c0 = processTranslation_start ex_job ex_active ex_pre 60000000000 ex_day_heap"

text \<open>
  What goroutines see around a deadline that passes while they run. The first sees the
  context active at line 597 and done from then on, and its translation call fails; the
  second sees it active at the stage boundaries (lines 597, 626 and 662) and done after
  its remux failed (line 683); the third passes every test before the deadline and
  succeeds.
\<close>

definition ex_seen_in_call :: ctx_view where
  "ex_seen_in_call = (\<lambda>line. if line = 597 then None else Some ''context deadline exceeded'')"

definition ex_seen_at_sync :: ctx_view where
  "ex_seen_at_sync =
     (\<lambda>line. if line = 597 \<or> line = 626 \<or> line = 662 then None
              else Some ''context deadline exceeded'')"

definition ex_env_translate_cut :: lang_env where
  "ex_env_translate_cut =
     ex_env\<lparr>translateText := Inl ''context deadline exceeded'', processedNow := 0\<rparr>"

definition ex_env_sync_cut :: lang_env where
  "ex_env_sync_cut = ex_env\<lparr>syncAudioWithVideo := Some ''signal: killed'', processedNow := 0\<rparr>"

definition ex_env_done :: lang_env where
  "ex_env_done = ex_env\<lparr>processedNow := 539999999000\<rparr>"


text \<open>
  Runs of this job, the instants in nanoseconds. In \<open>ex_run_fanin\<close> both goroutines are
  started, \<open>ar\<close> fails in translation after one second, \<open>en\<close> succeeds after 35 seconds,
  \<^verbatim>\<open>done\<close> is closed and the coordinator reaches the aggregation step.

  In \<open>ex_run_started\<close> both goroutines are started and the coordinator waits; the
  deadline of the context passes at 540 seconds (\<open>ex_deadline\<close>); \<open>ex_run_cancelled\<close> is
  the run up to there. In \<open>ex_run_grace\<close>, which follows, the
  coordinator receives from \<^verbatim>\<open>ctx.Done()\<close> and starts the timer; the goroutine of \<open>en\<close>,
  whose translation call was cut, writes its failure; the goroutine of \<open>ar\<close> has not
  finished when the timer fires five seconds later; the coordinator reports the
  cancellation and returns. \<open>ex_run_timeout\<close> is the two in a row. In \<open>ex_late_ar\<close> the
  goroutine of \<open>ar\<close>, whose remux was cut, writes its failure 20 seconds after the
  deadline. In \<open>ex_run_completes_late\<close> the goroutine of \<open>en\<close> writes its failure, the
  goroutine of \<open>ar\<close>, which had passed its last test of the context just before the
  deadline, writes its success just after it, \<^verbatim>\<open>done\<close> is closed, and the coordinator
  reports the cancellation and returns. In \<open>ex_run_silent\<close> neither goroutine has
  finished when the timer fires and the coordinator returns; in \<open>ex_late_both\<close> they
  write their failures afterwards.

  In \<open>ex_run_loop_cancel\<close> the context is cancelled after the goroutine of \<open>en\<close> was
  started and before the second iteration of the loop; the coordinator marks both
  languages, reports and returns.
\<close>

definition ex_run_fanin :: "event list" where
  "ex_run_fanin =
     [Main 60000000001, Main 60000000002, Main 60000000003,
      Unit ''ar'' ex_active
        (ex_env\<lparr>translateText := Inl ''quota exceeded'', processedNow := 0\<rparr>) 61000000000,
      Unit ''en'' ex_active (ex_env\<lparr>processedNow := 94999999000\<rparr>) 95000000000,
      DoneClosed 95000000001, Main 95000000002]"

definition ex_run_started :: "event list" where
  "ex_run_started = [Main 60000000001, Main 60000000002, Main 60000000003]"

definition ex_deadline :: event where
  "ex_deadline = Cancel ''context deadline exceeded'' 540000000000"

definition ex_run_cancelled :: "event list" where
  "ex_run_cancelled = ex_run_started @ [ex_deadline]"

definition ex_run_grace :: "event list" where
  "ex_run_grace =
     [CtxDone 540000000001,
      Unit ''en'' ex_seen_in_call ex_env_translate_cut 540000000500,
      Timeout 545000000002, Main 545000000003, Main 545000000004]"

definition ex_run_timeout :: "event list" where
  "ex_run_timeout = ex_run_cancelled @ ex_run_grace"

definition ex_late_ar :: event where
  "ex_late_ar = Unit ''ar'' ex_seen_at_sync ex_env_sync_cut 560000000000"

definition ex_run_completes_late :: "event list" where
  "ex_run_completes_late =
     [CtxDone 540000000001,
      Unit ''en'' ex_seen_in_call ex_env_translate_cut 540000000500,
      Unit ''ar'' ex_active ex_env_done 540000000600,
      DoneClosed 540000000700, Main 540000000800, Main 540000000900]"

definition ex_run_silent :: "event list" where
  "ex_run_silent =
     ex_run_cancelled @
     [CtxDone 540000000001, Timeout 545000000002, Main 545000000003, Main 545000000004]"

definition ex_late_both :: "event list" where
  "ex_late_both =
     [Unit ''en'' ex_seen_in_call ex_env_translate_cut 552000000000, ex_late_ar]"

definition ex_run_loop_cancel :: "event list" where
  "ex_run_loop_cancel =
     [Main 60000000001, Cancel ''context canceled'' 60000000002,
      Main 60000000003, Main 60000000004, Main 60000000005, Main 60000000006,
      Main 60000000007, Main 60000000008, Main 60000000009]"

section \<open>The invariant of the fan-out and fan-in\<close>

text \<open>The languages that have an entry or a goroutine in flight when the coordinator
  stands at a place (outside the cancellation branch of the loop, those whose goroutine
  has been started); the languages that have an entry when it stands in the
  cancellation branch of the loop; and the places it reaches only with a context that
  is done.\<close>

fun covered :: "pc \<Rightarrow> string list \<Rightarrow> string set" where
  "covered (Loop i) targets = set (take i targets)"
| "covered (MarkCheck k) targets = {}"
| "covered (MarkWrite k) targets = {}"
| "covered LoopReport targets = {}"
| "covered other targets = set targets"

fun marked :: "pc \<Rightarrow> string list \<Rightarrow> string set" where
  "marked (MarkCheck k) targets = set (take k targets)"
| "marked (MarkWrite k) targets = set (take k targets)"
| "marked LoopReport targets = set targets"
| "marked other targets = {}"

fun after_cancel :: "pc \<Rightarrow> bool" where
  "after_cancel (MarkCheck k) = True"
| "after_cancel (MarkWrite k) = True"
| "after_cancel LoopReport = True"
| "after_cancel Grace = True"
| "after_cancel FinalReport = True"
| "after_cancel other = False"

text \<open>
  What every configuration of a run on a live job satisfies: the entries of the result
  mapping are terminal and their keys distinct; until the coordinator returns, the keys
  are target languages; the goroutines in flight belong to target languages; a language
  whose goroutine was started has an entry or is in flight; in the cancellation branch
  of the loop the languages already handled have an entry; and the coordinator stands
  at the aggregation only with no goroutine in flight, at the final check only with none
  in flight or a context that is done, in the cancellation branch, the grace period and
  the reports only with a context that is done, before a mark only for a language of
  the list.
\<close>

definition fan_inv :: "job \<Rightarrow> config \<Rightarrow> bool" where
  "fan_inv j c =
     (let R = Results (c_heap c (j_status j)) in
        list_all (\<lambda>kr. terminal (lr_Status (snd kr))) R
        \<and> distinct (map fst R)
        \<and> (c_pc c = Returned \<or> fst ` set R \<subseteq> set (j_targets j))
        \<and> set (c_inflight c) \<subseteq> set (j_targets j)
        \<and> covered (c_pc c) (j_targets j) \<subseteq> fst ` set R \<union> set (c_inflight c)
        \<and> marked (c_pc c) (j_targets j) \<subseteq> fst ` set R
        \<and> (after_cancel (c_pc c) \<longrightarrow> c_ctx c \<noteq> None)
        \<and> (c_pc c = Aggregate \<longrightarrow> c_inflight c = [])
        \<and> (c_pc c = FinalCheck \<longrightarrow> c_inflight c = [] \<or> c_ctx c \<noteq> None)
        \<and> (\<forall>k. c_pc c = MarkWrite k \<longrightarrow> k < length (j_targets j)))"

text \<open>
  What holds from the moment the coordinator stands at its last step with an entry for
  every target language: the keys of the result mapping are the target languages, the
  entries are terminal, and only goroutines of target languages are in flight.
\<close>

definition results_complete :: "job \<Rightarrow> config \<Rightarrow> bool" where
  "results_complete j c =
     (let R = Results (c_heap c (j_status j)) in
        fst ` set R = set (j_targets j) \<and> R \<noteq> []
        \<and> distinct (map fst R)
        \<and> list_all (\<lambda>kr. terminal (lr_Status (snd kr))) R
        \<and> set (c_inflight c) \<subseteq> set (j_targets j)
        \<and> (c_pc c = Aggregate \<or> c_pc c = LoopReport \<or> c_pc c = FinalReport
            \<or> c_pc c = Returned))"

section \<open>Cancellation as the goroutines and the record see it\<close>




text \<open>
  Invariants of a run after the context was cancelled with the error \<open>e\<close> before the
  final check let the coordinator through: the context stays done, the coordinator
  never stands at the aggregation, and the job is \<open>failed\<close> once it has returned; and,
  against the result mapping \<open>R1\<close> of the moment of cancellation, every key has the entry
  it had or a failed one with a cancellation cause.
\<close>

definition cancel_inv :: "string \<Rightarrow> job \<Rightarrow> config \<Rightarrow> bool" where
  "cancel_inv e j c =
     (c_ctx c = Some e \<and> c_pc c \<noteq> Aggregate
      \<and> (c_pc c = Returned \<longrightarrow> Status (c_heap c (j_status j)) = StatusFailed))"







section \<open>The invariant of the rate limiter\<close>

text \<open>Every bucket of the limiter holds between zero and \<open>requestsPerMinute\<close> tokens.\<close>

definition buckets_in_range :: "RateLimiter \<Rightarrow> bool" where
  "buckets_in_range rl =
     (\<forall>identifier b. buckets rl identifier = Some b \<longrightarrow>
        0 \<le> tokens b \<and> tokens b \<le> requestsPerMinute rl)"

section \<open>Properties of the job store and of the aggregation\<close>


lemmas status_defs = StatusIdle_def StatusProcessing_def StatusCompleted_def StatusFailed_def

lemma ex_store_simps:
  "jobs ex_store ''job-1'' = Some \<lparr>status = 0, createdAt = 100\<rparr>"
  "jobs ex_store ''job-2'' = None"
  "jobTTL ex_store = 10"
  by (simp_all add: ex_store_def handleTranslate_accept_def SetStatus_def NewInMemoryJobStore_def Let_def)

text \<open>
  C5. \<open>GetStatus\<close> answers \<open>StatusNotFoundError\<close> exactly when the identifier is absent
  from the store or the age of its entry exceeds a positive TTL; it has no other error;
  in every other case it returns the stored record (the pointer the entry holds).
\<close>

theorem GetStatus_not_found_iff:
  "((GetStatus s now jobID = Inl (StatusNotFoundError jobID)) =
      (jobs s jobID = None \<or>
       (\<exists>entry. jobs s jobID = Some entry \<and> 0 < jobTTL s \<and> jobTTL s < now - createdAt entry)))
   \<and> (\<forall>err. GetStatus s now jobID = Inl err \<longrightarrow> err = StatusNotFoundError jobID)
   \<and> (\<forall>entry. jobs s jobID = Some entry \<and> \<not> (0 < jobTTL s \<and> jobTTL s < now - createdAt entry)
         \<longrightarrow> GetStatus s now jobID = Inr (status entry))"
  by (auto simp: GetStatus_def expired_def split: option.splits if_splits)

theorem GetStatus_not_found_iff_witness:
  "GetStatus ex_store 111 ''job-1'' = Inl (StatusNotFoundError ''job-1'')
   \<and> GetStatus ex_store 105 ''job-2'' = Inl (StatusNotFoundError ''job-2'')
   \<and> GetStatus ex_store 110 ''job-1'' = Inr 0"
proof -
  have a: "GetStatus ex_store 111 ''job-1'' = Inl (StatusNotFoundError ''job-1'')"
    using GetStatus_not_found_iff [of ex_store 111 "''job-1''", THEN conjunct1]
    by (simp add: ex_store_simps)
  have b: "GetStatus ex_store 105 ''job-2'' = Inl (StatusNotFoundError ''job-2'')"
    using GetStatus_not_found_iff [of ex_store 105 "''job-2''", THEN conjunct1]
    by (simp add: ex_store_simps)
  have c: "GetStatus ex_store 110 ''job-1'' = Inr (status \<lparr>status = 0, createdAt = 100\<rparr>)"
    using GetStatus_not_found_iff [of ex_store 110 "''job-1''", THEN conjunct2, THEN conjunct2,
        THEN spec, of "\<lparr>status = 0, createdAt = 100\<rparr>"]
    by (simp add: ex_store_simps)
  from a b c show ?thesis by simp
qed


lemma ex_heap_0:
  "ex_heap 0 = \<lparr>JobID = ''job-1'', Status = StatusProcessing, Results = [], CreatedAt = Some 100, UpdatedAt = 100\<rparr>"
  by (simp add: ex_heap_def handleTranslate_accept_def SetStatus_def Let_def)

text \<open>
  C6. For an identifier that is present and not expired, \<open>UpdateStatusSafely\<close> applies the
  updater to the stored record, stamps \<open>UpdatedAt\<close> with the current instant and returns
  no error; for an identifier that is absent or expired it returns
  \<open>StatusNotFoundError\<close> and the heap is unchanged (the \<open>jobs\<close> map and the TTL are never
  written by it).
\<close>

theorem UpdateStatusSafely_applies_or_not_found:
  "(\<forall>entry. jobs s jobID = Some entry \<and> \<not> (0 < jobTTL s \<and> jobTTL s < now - createdAt entry) \<longrightarrow>
       UpdateStatusSafely s h now jobID f =
         (None, h(status entry := (f (h (status entry)))\<lparr>UpdatedAt := now\<rparr>)))
   \<and> (jobs s jobID = None \<or>
        (\<exists>entry. jobs s jobID = Some entry \<and> 0 < jobTTL s \<and> jobTTL s < now - createdAt entry) \<longrightarrow>
       UpdateStatusSafely s h now jobID f = (Some (StatusNotFoundError jobID), h))"
  by (auto simp: UpdateStatusSafely_def expired_def)

theorem UpdateStatusSafely_applies_or_not_found_witness:
  "UpdateStatusSafely ex_store ex_heap 110 ''job-1'' (\<lambda>st. st\<lparr>Status := StatusCompleted\<rparr>) =
     (None, ex_heap(0 := \<lparr>JobID = ''job-1'', Status = StatusCompleted, Results = [],
                          CreatedAt = Some 100, UpdatedAt = 110\<rparr>))
   \<and> UpdateStatusSafely ex_store ex_heap 111 ''job-1'' (\<lambda>st. st\<lparr>Status := StatusCompleted\<rparr>) =
     (Some (StatusNotFoundError ''job-1''), ex_heap)
   \<and> UpdateStatusSafely ex_store ex_heap 105 ''job-2'' (\<lambda>st. st\<lparr>Status := StatusCompleted\<rparr>) =
     (Some (StatusNotFoundError ''job-2''), ex_heap)"
proof -
  let ?f = "\<lambda>st. st\<lparr>Status := StatusCompleted\<rparr>"
  have a: "UpdateStatusSafely ex_store ex_heap 110 ''job-1'' ?f =
     (None, ex_heap(status \<lparr>status = 0, createdAt = 100\<rparr> :=
        (?f (ex_heap (status \<lparr>status = 0, createdAt = 100\<rparr>)))\<lparr>UpdatedAt := 110\<rparr>))"
    using UpdateStatusSafely_applies_or_not_found [of ex_store "''job-1''" 110 ex_heap ?f,
        THEN conjunct1, THEN spec, of "\<lparr>status = 0, createdAt = 100\<rparr>"]
    by (simp add: ex_store_simps)
  have b: "UpdateStatusSafely ex_store ex_heap 111 ''job-1'' ?f =
     (Some (StatusNotFoundError ''job-1''), ex_heap)"
    using UpdateStatusSafely_applies_or_not_found [of ex_store "''job-1''" 111 ex_heap ?f,
        THEN conjunct2]
    by (simp add: ex_store_simps)
  have c: "UpdateStatusSafely ex_store ex_heap 105 ''job-2'' ?f =
     (Some (StatusNotFoundError ''job-2''), ex_heap)"
    using UpdateStatusSafely_applies_or_not_found [of ex_store "''job-2''" 105 ex_heap ?f,
        THEN conjunct2]
    by (simp add: ex_store_simps)
  from a b c show ?thesis by (simp add: ex_heap_0)
qed

text \<open>
  C9, as stated, fails: \<open>GetStatus\<close> returns \<^verbatim>\<open>entry.status\<close>, the pointer the store holds,
  not a copy. In the example the pointer returned at the instant 105 is the address 0;
  the update of the instant 106 is seen through it (the record at 0 differs from the
  one read before), and a write of the caller through it is what the store hands to its
  next reader.
\<close>

theorem GetStatus_snapshot_counterexample:
  "GetStatus ex_store 105 ''job-1'' = Inr 0
   \<and> Status (ex_heap 0) = StatusProcessing
   \<and> Status (snd (UpdateStatusSafely ex_store ex_heap 106 ''job-1''
                     (\<lambda>st. st\<lparr>Status := StatusCompleted\<rparr>)) 0) = StatusCompleted
   \<and> readStatus ex_store (ex_heap(0 := (ex_heap 0)\<lparr>Status := StatusFailed\<rparr>)) 107 ''job-1'' =
       Inr \<lparr>JobID = ''job-1'', Status = StatusFailed, Results = [], CreatedAt = Some 100,
            UpdatedAt = 100\<rparr>"
  by (simp add: GetStatus_def readStatus_def UpdateStatusSafely_def expired_def ex_store_simps
      ex_heap_0)

text \<open>
  C9, amended. The pointer \<open>GetStatus\<close> returns is the one the entry holds: a record
  written through it by the caller is what every later successful read of the job
  yields, and a later successful \<open>UpdateStatusSafely\<close> of the job changes the record
  behind it.
\<close>

theorem GetStatus_returns_live_reference:
  "GetStatus s now jobID = Inr p \<longrightarrow>
     (\<exists>entry. jobs s jobID = Some entry \<and> status entry = p)
     \<and> (\<forall>h v now'. (\<exists>q. GetStatus s now' jobID = Inr q) \<longrightarrow>
            readStatus s (h(p := v)) now' jobID = Inr v)
     \<and> (\<forall>h f now'. fst (UpdateStatusSafely s h now' jobID f) = None \<longrightarrow>
            snd (UpdateStatusSafely s h now' jobID f) p = (f (h p))\<lparr>UpdatedAt := now'\<rparr>)"
  by (auto simp: GetStatus_def readStatus_def UpdateStatusSafely_def
      split: option.splits if_splits)


theorem GetStatus_returns_live_reference_witness:
  "(\<exists>entry. jobs ex_store ''job-1'' = Some entry \<and> status entry = 0)
   \<and> readStatus ex_store (ex_heap(0 := ex_blank)) 107 ''job-1'' = Inr ex_blank
   \<and> snd (UpdateStatusSafely ex_store ex_heap 106 ''job-1'' (\<lambda>st. st\<lparr>Status := StatusCompleted\<rparr>)) 0
       = \<lparr>JobID = ''job-1'', Status = StatusCompleted, Results = [], CreatedAt = Some 100,
          UpdatedAt = 106\<rparr>"
proof -
  have g: "GetStatus ex_store 105 ''job-1'' = Inr 0"
    by (simp add: GetStatus_def expired_def ex_store_simps)
  have g': "\<exists>q. GetStatus ex_store 107 ''job-1'' = Inr q"
    by (simp add: GetStatus_def expired_def ex_store_simps)
  have u: "fst (UpdateStatusSafely ex_store ex_heap 106 ''job-1''
                  (\<lambda>st. st\<lparr>Status := StatusCompleted\<rparr>)) = None"
    by (simp add: UpdateStatusSafely_def expired_def ex_store_simps)
  note t = GetStatus_returns_live_reference [of ex_store 105 "''job-1''" 0, THEN mp, OF g]
  from t have a: "\<exists>entry. jobs ex_store ''job-1'' = Some entry \<and> status entry = 0"
    by (rule conjunct1)
  from t g' have b: "readStatus ex_store (ex_heap(0 := ex_blank)) 107 ''job-1'' = Inr ex_blank"
    by blast
  from t u have c: "snd (UpdateStatusSafely ex_store ex_heap 106 ''job-1''
                      (\<lambda>st. st\<lparr>Status := StatusCompleted\<rparr>)) 0
       = ((\<lambda>st. st\<lparr>Status := StatusCompleted\<rparr>) (ex_heap 0))\<lparr>UpdatedAt := 106\<rparr>"
    by blast
  from a b c show ?thesis by (simp add: ex_heap_0)
qed

lemma status_distinct [simp]:
  "StatusCompleted \<noteq> StatusFailed" "StatusFailed \<noteq> StatusCompleted"
  "StatusProcessing \<noteq> StatusCompleted" "StatusProcessing \<noteq> StatusFailed"
  "StatusCompleted \<noteq> StatusProcessing" "StatusFailed \<noteq> StatusProcessing"
  by (simp_all add: status_defs)

lemma terminal_simps [simp]:
  "terminal StatusCompleted" "terminal StatusFailed" "\<not> terminal StatusProcessing"
  by (simp_all add: terminal_def)

lemma aggregateLoop_char:
  "aggregateLoop rs (a, f) =
     (a \<and> (\<forall>kr \<in> set rs. lr_Status (snd kr) = StatusCompleted),
      f \<or> (\<exists>kr \<in> set rs. lr_Status (snd kr) = StatusFailed))"
  by (induction rs arbitrary: a f) auto

lemma Status_aggregateStatus:
  "Status (aggregateStatus now st) =
     (if \<forall>kr \<in> set (Results st). lr_Status (snd kr) = StatusCompleted then StatusCompleted
      else if \<exists>kr \<in> set (Results st). lr_Status (snd kr) = StatusFailed then StatusFailed
      else Status st)"
  by (simp add: aggregateStatus_def aggregateLoop_char)

lemma Results_aggregateStatus [simp]: "Results (aggregateStatus now st) = Results st"
  by (simp add: aggregateStatus_def aggregateLoop_char)

text \<open>
  C1. When every entry of the result mapping is terminal, the aggregation closure sets
  the status to \<open>completed\<close> if and only if every entry is \<open>completed\<close>, and to \<open>failed\<close>
  as soon as one entry is \<open>failed\<close>; on a live job the aggregation step stores that
  record (stamped with the instant of the step).
\<close>

theorem aggregateStatus_completed_iff:
  "(\<forall>kr \<in> set (Results st). terminal (lr_Status (snd kr))) \<longrightarrow>
     ((Status (aggregateStatus now st) = StatusCompleted) =
        (\<forall>kr \<in> set (Results st). lr_Status (snd kr) = StatusCompleted))
     \<and> ((\<exists>kr \<in> set (Results st). lr_Status (snd kr) = StatusFailed) \<longrightarrow>
           Status (aggregateStatus now st) = StatusFailed)
     \<and> (\<forall>s h jobID p. live s now jobID p \<and> h p = st \<longrightarrow>
           snd (UpdateStatusSafely s h now jobID (aggregateStatus now)) p =
             (aggregateStatus now st)\<lparr>UpdatedAt := now\<rparr>)"
proof (intro impI conjI allI)
  assume t: "\<forall>kr \<in> set (Results st). terminal (lr_Status (snd kr))"
  show "(Status (aggregateStatus now st) = StatusCompleted) =
        (\<forall>kr \<in> set (Results st). lr_Status (snd kr) = StatusCompleted)"
  proof (cases "\<forall>kr \<in> set (Results st). lr_Status (snd kr) = StatusCompleted")
    case True
    then show ?thesis by (simp add: Status_aggregateStatus)
  next
    case False
    then obtain kr where kr: "kr \<in> set (Results st)" "lr_Status (snd kr) \<noteq> StatusCompleted"
      by blast
    with t have "lr_Status (snd kr) = StatusFailed" by (auto simp: terminal_def)
    with kr have "\<exists>kr \<in> set (Results st). lr_Status (snd kr) = StatusFailed" by blast
    with False show ?thesis by (simp add: Status_aggregateStatus)
  qed
next
  assume "\<exists>kr \<in> set (Results st). lr_Status (snd kr) = StatusFailed"
  then obtain kr where "kr \<in> set (Results st)" "lr_Status (snd kr) = StatusFailed"
    by blast
  then have "\<not> (\<forall>kr \<in> set (Results st). lr_Status (snd kr) = StatusCompleted)"
    "\<exists>kr \<in> set (Results st). lr_Status (snd kr) = StatusFailed"
    by force+
  then show "Status (aggregateStatus now st) = StatusFailed"
    by (simp only: Status_aggregateStatus if_True if_False)
next
  fix s h jobID p
  assume "live s now jobID p \<and> h p = st"
  then show "snd (UpdateStatusSafely s h now jobID (aggregateStatus now)) p =
             (aggregateStatus now st)\<lparr>UpdatedAt := now\<rparr>"
    by (auto simp: live_def UpdateStatusSafely_def split: option.splits)
qed


lemma lr_Status_failedResult [simp]: "lr_Status (failedResult msg) = StatusFailed"
  by (simp add: failedResult_def)

lemma ex_done_completed: "lr_Status (processLanguage ex_active ex_env) = StatusCompleted"
  by (simp add: processLanguage_def ex_active_def ex_env_def)

theorem aggregateStatus_completed_iff_witness:
  "Status (aggregateStatus 109
      ((ex_heap 0)\<lparr>Results := [(''en'', processLanguage ex_active ex_env)]\<rparr>)) = StatusCompleted
   \<and> Status (aggregateStatus 109
      ((ex_heap 0)\<lparr>Results := [(''en'', processLanguage ex_active ex_env),
                                (''ar'', failedResult ''translation failed: quota'')]\<rparr>)) = StatusFailed"
proof -
  let ?a = "(ex_heap 0)\<lparr>Results := [(''en'', processLanguage ex_active ex_env)]\<rparr>"
  let ?b = "(ex_heap 0)\<lparr>Results := [(''en'', processLanguage ex_active ex_env),
                                (''ar'', failedResult ''translation failed: quota'')]\<rparr>"
  have ta: "\<forall>kr \<in> set (Results ?a). terminal (lr_Status (snd kr))"
    by (simp add: ex_done_completed)
  have tb: "\<forall>kr \<in> set (Results ?b). terminal (lr_Status (snd kr))"
    by (simp add: ex_done_completed)
  have a: "Status (aggregateStatus 109 ?a) = StatusCompleted"
    using aggregateStatus_completed_iff [of ?a 109, THEN mp, OF ta, THEN conjunct1]
    by (simp add: ex_done_completed)
  have b: "Status (aggregateStatus 109 ?b) = StatusFailed"
    using aggregateStatus_completed_iff [of ?b 109, THEN mp, OF tb, THEN conjunct2, THEN conjunct1]
    by simp
  from a b show ?thesis by simp
qed


section \<open>Terminal states are kept\<close>

lemma updater_of_terminal:
  "terminal (Status st) \<Longrightarrow> terminal (Status (updater_of opn now st))"
  by (cases opn)
     (auto simp: Status_aggregateStatus jobErrorUpdater_def storeResult_def markCancelled_def Let_def)

lemma UpdateStatusSafely_terminal:
  assumes "\<And>st. terminal (Status st) \<Longrightarrow> terminal (Status (f st))"
    and "terminal (Status (h p))"
  shows "terminal (Status (snd (UpdateStatusSafely s h now jobID f) p))"
  using assms by (auto simp: UpdateStatusSafely_def split: option.splits)

lemma apply_ops_terminal:
  "terminal (Status (h p)) \<Longrightarrow> terminal (Status (apply_ops s h ops p))"
proof (induction ops arbitrary: h)
  case Nil
  then show ?case by simp
next
  case (Cons x ops)
  obtain now jobID opn where x: "x = (now, jobID, opn)" by (cases x) auto
  have "terminal (Status (snd (UpdateStatusSafely s h now jobID (updater_of opn now)) p))"
    using Cons.prems by (intro UpdateStatusSafely_terminal updater_of_terminal)
  then show ?case using Cons.IH by (simp add: x)
qed

lemma updateJobError_terminal:
  "terminal (Status (h p)) \<Longrightarrow> terminal (Status (updateJobError s h now jobID msg p))"
  unfolding updateJobError_def
  by (rule UpdateStatusSafely_terminal) (auto simp: jobErrorUpdater_def Let_def)

lemma main_step_terminal:
  "terminal (Status (c_heap c p)) \<Longrightarrow> terminal (Status (c_heap (main_step j now c) p))"
  unfolding main_step_def
  by (auto split: pc.splits option.splits
      intro!: UpdateStatusSafely_terminal updateJobError_terminal
      simp: markCancelled_def Status_aggregateStatus)

lemma fire_terminal:
  "terminal (Status (c_heap c p)) \<Longrightarrow> terminal (Status (c_heap (fire j ev c) p))"
  by (cases ev)
     (auto intro!: UpdateStatusSafely_terminal main_step_terminal simp: storeResult_def)

lemma step_terminal:
  "terminal (Status (c_heap c p)) \<Longrightarrow> terminal (Status (c_heap (step j ev c) p))"
  using fire_terminal [of "c\<lparr>c_clock := instant ev\<rparr>" p j ev] by (simp add: step_def)

lemma run_terminal:
  "terminal (Status (c_heap c p)) \<Longrightarrow> terminal (Status (c_heap (run j evs c) p))"
  by (induction evs arbitrary: c) (auto intro: step_terminal)

lemma terminal_not_processing: "terminal st \<Longrightarrow> st \<noteq> StatusProcessing"
  by (auto simp: terminal_def)

text \<open>
  C2. Once the status of a job record is \<open>completed\<close> or \<open>failed\<close>, it stays terminal, and
  so is never \<open>processing\<close> again: after any sequence of the coordinator's updates (the
  aggregation closure, the closure of \<open>updateJobError\<close>, a unit's result write, a
  cancellation mark) applied through \<open>UpdateStatusSafely\<close> at any instants to any jobs,
  and after any run of the fan-out and fan-in from a configuration with that heap.
\<close>

theorem terminal_status_never_reset:
  "terminal (Status (h p)) \<longrightarrow>
     terminal (Status (apply_ops s h ops p)) \<and> Status (apply_ops s h ops p) \<noteq> StatusProcessing
     \<and> (\<forall>j evs c. c_heap c = h \<longrightarrow>
           terminal (Status (c_heap (run j evs c) p))
           \<and> Status (c_heap (run j evs c) p) \<noteq> StatusProcessing)"
proof (intro impI conjI allI)
  assume t: "terminal (Status (h p))"
  show a: "terminal (Status (apply_ops s h ops p))"
    using t by (rule apply_ops_terminal)
  show "Status (apply_ops s h ops p) \<noteq> StatusProcessing"
    using a by (rule terminal_not_processing)
  fix j evs and c :: config
  assume "c_heap c = h"
  with t have "terminal (Status (c_heap c p))" by simp
  then show b: "terminal (Status (c_heap (run j evs c) p))" by (rule run_terminal)
  show "Status (c_heap (run j evs c) p) \<noteq> StatusProcessing"
    using b by (rule terminal_not_processing)
qed


theorem terminal_status_never_reset_witness:
  "terminal (Status (apply_ops ex_day_store (c_heap (run ex_job ex_run_timeout ex_c0))
       [(560000000000, ''job-1'', OpStoreResult ''ar'' ex_active ex_env_done),
        (560000000001, ''job-1'', OpAggregate),
        (560000000002, ''job-1'', OpMarkCancelled ''de''),
        (560000000003, ''job-1'', OpJobError ''late'')] 0))
   \<and> terminal (Status (c_heap (run ex_job [ex_late_ar, Main 560000000001]
       (run ex_job ex_run_timeout ex_c0)) 0))"
proof -
  have t: "terminal (Status (c_heap (run ex_job ex_run_timeout ex_c0) 0))"
    by code_simp
  note th = terminal_status_never_reset [of "c_heap (run ex_job ex_run_timeout ex_c0)" 0, THEN mp, OF t]
  show ?thesis
    using th [of ex_day_store "[(560000000000, ''job-1'', OpStoreResult ''ar'' ex_active ex_env_done),
        (560000000001, ''job-1'', OpAggregate),
        (560000000002, ''job-1'', OpMarkCancelled ''de''),
        (560000000003, ''job-1'', OpJobError ''late'')]"]
    by blast
qed

section \<open>Failure of the shared preprocessing\<close>




lemma UpdateStatusSafely_live:
  "live s now jobID p \<Longrightarrow>
   UpdateStatusSafely s h now jobID f = (None, h(p := (f (h p))\<lparr>UpdatedAt := now\<rparr>))"
  by (auto simp: live_def UpdateStatusSafely_def split: option.splits)

lemma updateJobError_live:
  "live s now jobID p \<Longrightarrow>
   updateJobError s h now jobID msg = h(p := (jobErrorUpdater msg now (h p))\<lparr>UpdatedAt := now\<rparr>)"
  by (simp add: updateJobError_def UpdateStatusSafely_live)






section \<open>The result mapping after the fan-in\<close>

lemma terminal_processLanguage: "terminal (lr_Status (processLanguage ctx env))"
  by (simp add: processLanguage_def split: option.splits sum.splits)

lemma list_all_update:
  "list_all P al \<Longrightarrow> P (k, v) \<Longrightarrow> list_all P (AList.update k v al)"
  by (induction al) auto

lemma Results_storeResult [simp]:
  "Results (storeResult lang r now st) = AList.update lang r (Results st)"
  by (simp add: storeResult_def)

lemma Results_markCancelled [simp]:
  "Results (markCancelled lang now st) =
     AList.update lang (failedResult ''processing cancelled'') (Results st)"
  by (simp add: markCancelled_def)

lemma take_Suc_set: "i < length xs \<Longrightarrow> set (take (Suc i) xs) = insert (xs ! i) (set (take i xs))"
  by (simp add: take_Suc_conv_app_nth)

lemma in_set_remove1_cases: "x \<in> set xs \<Longrightarrow> x = y \<or> x \<in> set (remove1 y xs)"
  by (cases "x = y") auto


lemma fan_inv_clock [simp]: "fan_inv j (c\<lparr>c_clock := t\<rparr>) = fan_inv j c"
  by (simp add: fan_inv_def)

lemma main_step_inv:
  assumes "fan_inv j c" and "live (j_store j) now (j_id j) (j_status j)"
  shows "fan_inv j (main_step j now c)"
proof (cases "c_pc c")
  case (Loop i)
  with assms show ?thesis
    by (auto simp: fan_inv_def main_step_def Let_def take_Suc_set split: option.splits)
next
  case (MarkCheck k)
  with assms show ?thesis
    by (auto simp: fan_inv_def main_step_def Let_def take_Suc_set map_of_eq_None_iff)
next
  case (MarkWrite k)
  with assms show ?thesis
    by (auto simp: fan_inv_def main_step_def Let_def UpdateStatusSafely_live take_Suc_set
        dom_update distinct_update intro!: list_all_update)
next
  case LoopReport
  with assms show ?thesis
    by (auto simp: fan_inv_def main_step_def Let_def updateJobError_live jobErrorUpdater_def
        split: option.splits)
next
  case Wait
  with assms show ?thesis by (simp add: main_step_def)
next
  case Grace
  with assms show ?thesis by (simp add: main_step_def)
next
  case FinalCheck
  with assms show ?thesis
    by (auto simp: fan_inv_def main_step_def Let_def split: option.splits)
next
  case FinalReport
  with assms show ?thesis
    by (auto simp: fan_inv_def main_step_def Let_def updateJobError_live jobErrorUpdater_def
        split: option.splits)
next
  case Aggregate
  with assms show ?thesis
    by (auto simp: fan_inv_def main_step_def Let_def UpdateStatusSafely_live)
next
  case Returned
  with assms show ?thesis by (simp add: main_step_def)
qed

lemma covered_subset_remove1:
  assumes "A \<subseteq> K \<union> set xs"
  shows "A \<subseteq> insert y K \<union> set (remove1 y xs)"
proof
  fix x assume "x \<in> A"
  with assms have "x \<in> K \<or> x \<in> set xs" by blast
  then show "x \<in> insert y K \<union> set (remove1 y xs)"
    using in_set_remove1_cases [of x xs y] by blast
qed

lemma unit_step_inv:
  assumes inv: "fan_inv j c" and l: "live (j_store j) now (j_id j) (j_status j)"
  shows "fan_inv j (fire j (Unit lang ctx env now) c)"
proof (cases "lang \<in> set (c_inflight c)")
  case False
  with inv show ?thesis by simp
next
  case True
  let ?R = "Results (c_heap c (j_status j))"
  let ?c = "fire j (Unit lang ctx env now) c"
  have R': "Results (c_heap ?c (j_status j)) = AList.update lang (processLanguage ctx env) ?R"
    using True by (simp add: UpdateStatusSafely_live [OF l])
  have pc': "c_pc ?c = c_pc c" and ctx': "c_ctx ?c = c_ctx c"
    and inf': "c_inflight ?c = remove1 lang (c_inflight c)"
    using True by simp_all
  from inv have a: "list_all (\<lambda>kr. terminal (lr_Status (snd kr))) ?R"
    and b: "distinct (map fst ?R)"
    and c: "c_pc c = Returned \<or> fst ` set ?R \<subseteq> set (j_targets j)"
    and d: "set (c_inflight c) \<subseteq> set (j_targets j)"
    and e: "covered (c_pc c) (j_targets j) \<subseteq> fst ` set ?R \<union> set (c_inflight c)"
    and m: "marked (c_pc c) (j_targets j) \<subseteq> fst ` set ?R"
    and x: "after_cancel (c_pc c) \<longrightarrow> c_ctx c \<noteq> None"
    and f: "c_pc c = Aggregate \<longrightarrow> c_inflight c = []"
    and g: "c_pc c = FinalCheck \<longrightarrow> c_inflight c = [] \<or> c_ctx c \<noteq> None"
    and w: "\<forall>k. c_pc c = MarkWrite k \<longrightarrow> k < length (j_targets j)"
    by (simp_all add: fan_inv_def Let_def)
  have a': "list_all (\<lambda>kr. terminal (lr_Status (snd kr)))
              (AList.update lang (processLanguage ctx env) ?R)"
    using a by (intro list_all_update) (simp_all add: terminal_processLanguage)
  have b': "distinct (map fst (AList.update lang (processLanguage ctx env) ?R))"
    using b by (rule distinct_update)
  have c': "c_pc c = Returned \<or>
      fst ` set (AList.update lang (processLanguage ctx env) ?R) \<subseteq> set (j_targets j)"
    using c d True by (auto simp: dom_update)
  have d': "set (remove1 lang (c_inflight c)) \<subseteq> set (j_targets j)"
    using d set_remove1_subset [of lang "c_inflight c"] by blast
  have e': "covered (c_pc c) (j_targets j) \<subseteq>
      fst ` set (AList.update lang (processLanguage ctx env) ?R) \<union> set (remove1 lang (c_inflight c))"
    using covered_subset_remove1 [OF e, of lang] by (simp add: dom_update)
  have m': "marked (c_pc c) (j_targets j) \<subseteq>
      fst ` set (AList.update lang (processLanguage ctx env) ?R)"
    using m by (auto simp: dom_update)
  have f': "c_pc c = Aggregate \<longrightarrow> remove1 lang (c_inflight c) = []"
    using f True by auto
  have g': "c_pc c = FinalCheck \<longrightarrow> remove1 lang (c_inflight c) = [] \<or> c_ctx c \<noteq> None"
    using g True by auto
  show ?thesis
    unfolding fan_inv_def Let_def R' pc' ctx' inf'
    using a' b' c' d' e' m' x f' g' w by blast
qed

lemma fire_inv:
  assumes "fan_inv j c" and "live_event j ev"
  shows "fan_inv j (fire j ev c)"
proof (cases ev)
  case (Main now)
  with assms show ?thesis by (simp add: main_step_inv)
next
  case (Unit lang ctx env now)
  with assms show ?thesis by (simp only: unit_step_inv live_event.simps)
next
  case (Cancel e now)
  with assms show ?thesis by (auto simp: fan_inv_def Let_def)
next
  case (DoneClosed now)
  with assms show ?thesis by (auto simp: fan_inv_def Let_def)
next
  case (CtxDone now)
  with assms show ?thesis by (auto simp: fan_inv_def Let_def)
next
  case (Timeout now)
  with assms show ?thesis by (auto simp: fan_inv_def Let_def)
qed

lemma step_inv:
  assumes "fan_inv j c" and "live_event j ev"
  shows "fan_inv j (step j ev c)"
  using assms fire_inv [of j "c\<lparr>c_clock := instant ev\<rparr>" ev] by (simp add: step_def)

lemma run_inv:
  "fan_inv j c \<Longrightarrow> list_all (live_event j) evs \<Longrightarrow> fan_inv j (run j evs c)"
  by (induction evs arbitrary: c) (auto intro: step_inv)

lemma accept_record:
  assumes "handleTranslate_accept s h t0 jobID p = (s1, h1)"
  shows "h1 p = \<lparr>JobID = jobID, Status = StatusProcessing, Results = [],
                  CreatedAt = Some t0, UpdatedAt = t0\<rparr>"
    and "jobs s1 jobID = Some \<lparr>status = p, createdAt = t0\<rparr>"
    and "jobTTL s1 = jobTTL s"
  using assms by (auto simp: handleTranslate_accept_def SetStatus_def Let_def)

lemma start_inv:
  assumes "Results (h (j_status j)) = []" and "preprocess ctx env = Inr prep"
  shows "fan_inv j (processTranslation_start j ctx env now h)"
  using assms by (simp add: fan_inv_def processTranslation_start_def)

lemma Results_UpdateStatusSafely_cases:
  "Results (snd (UpdateStatusSafely s h now jobID f) q) = Results (h q)
   \<or> Results (snd (UpdateStatusSafely s h now jobID f) q) = Results (f (h q))"
  by (auto simp: UpdateStatusSafely_def split: option.splits)

lemma results_complete_clock [simp]:
  "results_complete j (c\<lparr>c_clock := t\<rparr>) = results_complete j c"
  by (simp add: results_complete_def)

lemma results_complete_heap:
  assumes "results_complete j c"
    and "Results (h' (j_status j)) = Results (c_heap c (j_status j))"
    and "pc' = Returned \<or> pc' = c_pc c"
  shows "results_complete j (c\<lparr>c_heap := h', c_pc := pc'\<rparr>)"
  using assms by (auto simp: results_complete_def Let_def)

lemma main_step_complete:
  assumes rc: "results_complete j c"
  shows "results_complete j (main_step j now c)"
proof -
  let ?st = "c_heap c (j_status j)"
  from rc have ne: "Results ?st \<noteq> []" by (simp add: results_complete_def Let_def)
  from rc have pc: "c_pc c = Aggregate \<or> c_pc c = LoopReport \<or> c_pc c = FinalReport
      \<or> c_pc c = Returned" by (simp add: results_complete_def Let_def)
  have agg: "Results (snd (UpdateStatusSafely (j_store j) (c_heap c) now (j_id j)
      (aggregateStatus now)) (j_status j)) = Results ?st"
    using Results_UpdateStatusSafely_cases [of "j_store j" "c_heap c" now "j_id j"
        "aggregateStatus now" "j_status j"] by auto
  have err: "Results (updateJobError (j_store j) (c_heap c) now (j_id j) msg (j_status j))
      = Results ?st" for msg
    using Results_UpdateStatusSafely_cases [of "j_store j" "c_heap c" now "j_id j"
        "jobErrorUpdater msg now" "j_status j"] ne
    by (auto simp: updateJobError_def jobErrorUpdater_def Let_def)
  from pc show ?thesis
  proof (elim disjE)
    assume "c_pc c = Aggregate"
    then show ?thesis
      using results_complete_heap [of j c "snd (UpdateStatusSafely (j_store j) (c_heap c) now
          (j_id j) (aggregateStatus now))" Returned] rc agg
      by (simp add: main_step_def)
  next
    assume p: "c_pc c = LoopReport"
    show ?thesis
    proof (cases "c_ctx c")
      case None
      with p rc show ?thesis by (simp add: main_step_def)
    next
      case (Some e)
      with p show ?thesis
        using results_complete_heap [of j c "updateJobError (j_store j) (c_heap c) now (j_id j)
            (''processing cancelled: '' @ e)" Returned] rc err
        by (simp add: main_step_def)
    qed
  next
    assume p: "c_pc c = FinalReport"
    show ?thesis
    proof (cases "c_ctx c")
      case None
      with p rc show ?thesis by (simp add: main_step_def)
    next
      case (Some e)
      with p show ?thesis
        using results_complete_heap [of j c "updateJobError (j_store j) (c_heap c) now (j_id j)
            (''processing cancelled: '' @ e)" Returned] rc err
        by (simp add: main_step_def)
    qed
  next
    assume "c_pc c = Returned"
    with rc show ?thesis by (simp add: main_step_def)
  qed
qed

lemma unit_complete:
  assumes rc: "results_complete j c"
  shows "results_complete j (fire j (Unit lang ctx env now) c)"
proof (cases "lang \<in> set (c_inflight c)")
  case False
  with rc show ?thesis by simp
next
  case True
  let ?R = "Results (c_heap c (j_status j))"
  let ?h = "snd (UpdateStatusSafely (j_store j) (c_heap c) now (j_id j)
                   (storeResult lang (processLanguage ctx env) now))"
  from rc have k: "fst ` set ?R = set (j_targets j)" and ne: "?R \<noteq> []"
    and d: "distinct (map fst ?R)"
    and t: "list_all (\<lambda>kr. terminal (lr_Status (snd kr))) ?R"
    and i: "set (c_inflight c) \<subseteq> set (j_targets j)"
    and pc: "c_pc c = Aggregate \<or> c_pc c = LoopReport \<or> c_pc c = FinalReport
      \<or> c_pc c = Returned"
    by (simp_all add: results_complete_def Let_def)
  let ?U = "AList.update lang (processLanguage ctx env) ?R"
  have lt: "lang \<in> set (j_targets j)" using True i by blast
  have k': "fst ` set ?U = set (j_targets j)" using k lt by (auto simp: dom_update)
  have ne': "?U \<noteq> []" using k' lt by auto
  have d': "distinct (map fst ?U)" using d by (rule distinct_update)
  have t': "list_all (\<lambda>kr. terminal (lr_Status (snd kr))) ?U"
    using t by (intro list_all_update) (simp_all add: terminal_processLanguage)
  have i': "set (remove1 lang (c_inflight c)) \<subseteq> set (j_targets j)"
    using i set_remove1_subset [of lang "c_inflight c"] by blast
  have "Results (?h (j_status j)) = ?R \<or> Results (?h (j_status j)) = ?U"
    using Results_UpdateStatusSafely_cases [of "j_store j" "c_heap c" now "j_id j"
        "storeResult lang (processLanguage ctx env) now" "j_status j"] by simp
  then show ?thesis
  proof
    assume "Results (?h (j_status j)) = ?R"
    then show ?thesis using True k ne d t i' pc by (simp add: results_complete_def Let_def)
  next
    assume "Results (?h (j_status j)) = ?U"
    then show ?thesis using True k' ne' d' t' i' pc by (simp add: results_complete_def Let_def)
  qed
qed

lemma fire_complete:
  assumes "results_complete j c"
  shows "results_complete j (fire j ev c)"
proof (cases ev)
  case (Main now)
  with assms show ?thesis by (simp add: main_step_complete)
next
  case (Unit lang ctx env now)
  with assms show ?thesis by (simp only: unit_complete)
next
  case (Cancel e now)
  with assms show ?thesis by (auto simp: results_complete_def Let_def)
next
  case (DoneClosed now)
  with assms show ?thesis by (auto simp: results_complete_def Let_def)
next
  case (CtxDone now)
  with assms show ?thesis by (auto simp: results_complete_def Let_def)
next
  case (Timeout now)
  with assms show ?thesis by (auto simp: results_complete_def Let_def)
qed

lemma step_complete: "results_complete j c \<Longrightarrow> results_complete j (step j ev c)"
  using fire_complete [of j "c\<lparr>c_clock := instant ev\<rparr>" ev] by (simp add: step_def)

lemma run_complete: "results_complete j c \<Longrightarrow> results_complete j (run j evs c)"
  by (induction evs arbitrary: c) (auto intro: step_complete)

lemma length_of_keys:
  assumes "distinct (map fst R)" and "fst ` set R = set targets" and "distinct targets"
  shows "length R = length targets"
proof -
  have "length R = length (map fst R)" by simp
  also have "\<dots> = card (set (map fst R))" using distinct_card [OF assms(1)] by simp
  also have "\<dots> = card (set targets)" using assms(2) by simp
  also have "\<dots> = length targets" using assms(3) by (simp add: distinct_card)
  finally show ?thesis .
qed

text \<open>
  C3, amended. A job is accepted with the target languages \<open>targets\<close>, at least one (the
  request is refused otherwise); its preprocessing succeeds, and it stays live during a
  run of the fan-out and fan-in. When the coordinator stands at its last step, which is
  the aggregation, or the report of a cancellation seen in the loop, or the report of
  the final cancellation check with no goroutine in flight, then its next step returns,
  and from that configuration on, whatever happens later, the keys of the result mapping
  are exactly the target languages, so with distinct target languages the mapping has
  as many entries as there are targets, and every entry is terminal.
\<close>

theorem fan_in_complete_results:
  "handleTranslate_accept s h t0 jobID p = (s1, h1)
   \<and> j = \<lparr>j_store = s1, j_id = jobID, j_status = p, j_targets = targets\<rparr>
   \<and> targets \<noteq> []
   \<and> preprocess ctx env = Inr prep
   \<and> list_all (live_event j) evs
   \<and> c = run j evs (processTranslation_start j ctx env t1 h1)
   \<and> (c_pc c = Aggregate \<or> c_pc c = LoopReport \<or> c_pc c = FinalReport \<and> c_inflight c = [])
   \<longrightarrow> (\<forall>now. c_clock c \<le> now \<longrightarrow> c_pc (step j (Main now) c) = Returned)
     \<and> (\<forall>evs'.
          fst ` set (Results (c_heap (run j evs' c) p)) = set targets
          \<and> distinct (map fst (Results (c_heap (run j evs' c) p)))
          \<and> (distinct targets \<longrightarrow> length (Results (c_heap (run j evs' c) p)) = length targets)
          \<and> (\<forall>kr \<in> set (Results (c_heap (run j evs' c) p)). terminal (lr_Status (snd kr))))"
  (is "?H \<longrightarrow> ?C")
proof
  assume a: ?H
  let ?R = "Results (c_heap c p)"
  from a have j: "j_status j = p" "j_targets j = targets" by simp_all
  from a have ne: "targets \<noteq> []" by blast
  from a have "Results (h1 (j_status j)) = []"
    using accept_record(1) [of s h t0 jobID p s1 h1] by (simp add: j)
  moreover from a have "preprocess ctx env = Inr prep" by blast
  ultimately have i0: "fan_inv j (processTranslation_start j ctx env t1 h1)"
    by (rule start_inv)
  from a have lv: "list_all (live_event j) evs"
    and cdef: "c = run j evs (processTranslation_start j ctx env t1 h1)" by blast+
  have inv: "fan_inv j c" unfolding cdef using i0 lv by (rule run_inv)
  from a have pc: "c_pc c = Aggregate \<or> c_pc c = LoopReport
      \<or> c_pc c = FinalReport \<and> c_inflight c = []" by blast
  from inv have t: "list_all (\<lambda>kr. terminal (lr_Status (snd kr))) ?R"
    and d: "distinct (map fst ?R)"
    and sub: "c_pc c = Returned \<or> fst ` set ?R \<subseteq> set targets"
    and inf: "set (c_inflight c) \<subseteq> set targets"
    and cov: "covered (c_pc c) targets \<subseteq> fst ` set ?R \<union> set (c_inflight c)"
    and mk: "marked (c_pc c) targets \<subseteq> fst ` set ?R"
    and ac: "after_cancel (c_pc c) \<longrightarrow> c_ctx c \<noteq> None"
    and ag: "c_pc c = Aggregate \<longrightarrow> c_inflight c = []"
    by (simp_all add: fan_inv_def Let_def j)
  from pc sub have sub': "fst ` set ?R \<subseteq> set targets" by auto
  from pc cov mk ag have "set targets \<subseteq> fst ` set ?R" by auto
  with sub' have keys: "fst ` set ?R = set targets" by blast
  from keys ne have ne': "?R \<noteq> []" by auto
  have rc: "results_complete j c"
    using keys ne' d t inf pc by (auto simp: results_complete_def Let_def j)
  have ret: "c_pc (step j (Main now) c) = Returned" if "c_clock c \<le> now" for now
    using that pc ac by (auto simp: step_def main_step_def split: option.splits)
  have later: "fst ` set (Results (c_heap (run j evs' c) p)) = set targets
          \<and> distinct (map fst (Results (c_heap (run j evs' c) p)))
          \<and> (distinct targets \<longrightarrow> length (Results (c_heap (run j evs' c) p)) = length targets)
          \<and> (\<forall>kr \<in> set (Results (c_heap (run j evs' c) p)). terminal (lr_Status (snd kr)))"
    for evs'
  proof -
    let ?R' = "Results (c_heap (run j evs' c) p)"
    have "results_complete j (run j evs' c)" using rc by (rule run_complete)
    then have k: "fst ` set ?R' = set targets" and d': "distinct (map fst ?R')"
      and t': "list_all (\<lambda>kr. terminal (lr_Status (snd kr))) ?R'"
      by (simp_all add: results_complete_def Let_def j)
    have "length ?R' = length targets" if "distinct targets"
      using d' k that by (rule length_of_keys)
    with k d' t' show ?thesis by (simp add: list_all_iff)
  qed
  from ret later show ?C by blast
qed

lemma ex_accept:
  "handleTranslate_accept (NewInMemoryJobStore 86400000000000) (\<lambda>p. ex_blank) 0 ''job-1'' 0 =
     (ex_day_store, ex_day_heap)"
  by (simp add: ex_day_store_def ex_day_heap_def)

lemma ex_job_record:
  "ex_job = \<lparr>j_store = ex_day_store, j_id = ''job-1'', j_status = 0,
             j_targets = [''en'', ''ar'']\<rparr>"
  by (simp add: ex_job_def)

lemma ex_preprocess:
  "preprocess ex_active ex_pre = Inr \<lparr>originalText = ''bonjour'', sourceLanguage = ''fr'',
     videoPath = ''/tmp/v.mp4'', videoDuration = 30\<rparr>"
  by (simp add: preprocess_def ex_active_def ex_pre_def effectiveSourceLanguage_def)

theorem fan_in_complete_results_witness:
  "c_pc (run ex_job ex_run_fanin ex_c0) = Aggregate
   \<and> fst ` set (Results (c_heap (run ex_job ex_run_fanin ex_c0) 0)) = {''en'', ''ar''}
   \<and> length (Results (c_heap (run ex_job ex_run_fanin ex_c0) 0)) = 2
   \<and> list_all (\<lambda>kr. terminal (lr_Status (snd kr)))
        (Results (c_heap (run ex_job ex_run_fanin ex_c0) 0))
   \<and> c_pc (run ex_job (butlast ex_run_loop_cancel) ex_c0) = LoopReport
   \<and> c_inflight (run ex_job (butlast ex_run_loop_cancel) ex_c0) = [''en'']
   \<and> c_pc (step ex_job (Main 60000000009) (run ex_job (butlast ex_run_loop_cancel) ex_c0))
       = Returned
   \<and> length (Results (c_heap (run ex_job [Main 60000000009]
        (run ex_job (butlast ex_run_loop_cancel) ex_c0)) 0)) = 2
   \<and> list_all (\<lambda>kr. terminal (lr_Status (snd kr)))
        (Results (c_heap (run ex_job [Main 60000000009]
           (run ex_job (butlast ex_run_loop_cancel) ex_c0)) 0))
   \<and> c_pc (run ex_job (butlast (ex_run_cancelled @ ex_run_completes_late)) ex_c0)
       = FinalReport
   \<and> c_inflight (run ex_job (butlast (ex_run_cancelled @ ex_run_completes_late)) ex_c0) = []
   \<and> length (Results (c_heap (run ex_job [Main 540000000900]
        (run ex_job (butlast (ex_run_cancelled @ ex_run_completes_late)) ex_c0)) 0)) = 2"
proof -
  let ?c = "run ex_job ex_run_fanin ex_c0"
  let ?d = "run ex_job (butlast ex_run_loop_cancel) ex_c0"
  let ?f = "run ex_job (butlast (ex_run_cancelled @ ex_run_completes_late)) ex_c0"
  have 0: "[''en'', ''ar''] \<noteq> []" by simp
  have 4: "list_all (live_event ex_job) ex_run_fanin"
    by code_simp
  have 5: "?c = run ex_job ex_run_fanin
      (processTranslation_start ex_job ex_active ex_pre 60000000000 ex_day_heap)"
    by (simp add: ex_c0_def)
  have 6: "c_pc ?c = Aggregate"
    by code_simp
  have 7: "distinct [''en'', ''ar'']" by simp
  have 8: "list_all (live_event ex_job) (butlast ex_run_loop_cancel)"
    by code_simp
  have 9: "?d = run ex_job (butlast ex_run_loop_cancel)
      (processTranslation_start ex_job ex_active ex_pre 60000000000 ex_day_heap)"
    by (simp add: ex_c0_def)
  have 10: "c_pc ?d = LoopReport"
    by code_simp
  have 11: "c_inflight ?d = [''en'']"
    by code_simp
  have 12: "c_clock ?d \<le> 60000000009"
    by code_simp
  have 13: "list_all (live_event ex_job) (butlast (ex_run_cancelled @ ex_run_completes_late))"
    by code_simp
  have 14: "?f = run ex_job (butlast (ex_run_cancelled @ ex_run_completes_late))
      (processTranslation_start ex_job ex_active ex_pre 60000000000 ex_day_heap)"
    by (simp add: ex_c0_def)
  have 15: "c_pc ?f = FinalReport"
    by code_simp
  have 16: "c_inflight ?f = []"
    by code_simp
  note th1 = fan_in_complete_results [where s = "NewInMemoryJobStore 86400000000000"
      and h = "\<lambda>p. ex_blank" and ?t0.0 = 0 and jobID = "''job-1''" and p = 0
      and ?s1.0 = ex_day_store and ?h1.0 = ex_day_heap and j = ex_job
      and targets = "[''en'', ''ar'']" and ctx = ex_active and env = ex_pre
      and ?t1.0 = 60000000000 and evs = ex_run_fanin and c = ?c, THEN mp]
  note th2 = fan_in_complete_results [where s = "NewInMemoryJobStore 86400000000000"
      and h = "\<lambda>p. ex_blank" and ?t0.0 = 0 and jobID = "''job-1''" and p = 0
      and ?s1.0 = ex_day_store and ?h1.0 = ex_day_heap and j = ex_job
      and targets = "[''en'', ''ar'']" and ctx = ex_active and env = ex_pre
      and ?t1.0 = 60000000000 and evs = "butlast ex_run_loop_cancel" and c = ?d, THEN mp]
  note th3 = fan_in_complete_results [where s = "NewInMemoryJobStore 86400000000000"
      and h = "\<lambda>p. ex_blank" and ?t0.0 = 0 and jobID = "''job-1''" and p = 0
      and ?s1.0 = ex_day_store and ?h1.0 = ex_day_heap and j = ex_job
      and targets = "[''en'', ''ar'']" and ctx = ex_active and env = ex_pre
      and ?t1.0 = 60000000000 and evs = "butlast (ex_run_cancelled @ ex_run_completes_late)"
      and c = ?f, THEN mp]
  from th1 ex_accept ex_job_record 0 ex_preprocess 4 5 6
  have a: "\<forall>evs'. fst ` set (Results (c_heap (run ex_job evs' ?c) 0)) = set [''en'', ''ar'']
      \<and> (distinct [''en'', ''ar''] \<longrightarrow>
            length (Results (c_heap (run ex_job evs' ?c) 0)) = length [''en'', ''ar''])
      \<and> (\<forall>kr \<in> set (Results (c_heap (run ex_job evs' ?c) 0)). terminal (lr_Status (snd kr)))"
    by blast
  from th2 ex_accept ex_job_record 0 ex_preprocess 8 9 10
  have b: "(\<forall>now. c_clock ?d \<le> now \<longrightarrow> c_pc (step ex_job (Main now) ?d) = Returned)
      \<and> (\<forall>evs'. 
        (distinct [''en'', ''ar''] \<longrightarrow>
            length (Results (c_heap (run ex_job evs' ?d) 0)) = length [''en'', ''ar''])
      \<and> (\<forall>kr \<in> set (Results (c_heap (run ex_job evs' ?d) 0)). terminal (lr_Status (snd kr))))"
    by blast
  from a [THEN spec, of "[]"] 7
  have a': "fst ` set (Results (c_heap ?c 0)) = {''en'', ''ar''}
      \<and> length (Results (c_heap ?c 0)) = 2
      \<and> list_all (\<lambda>kr. terminal (lr_Status (snd kr))) (Results (c_heap ?c 0))"
    by (simp add: list_all_iff insert_commute)
  from b [THEN conjunct1, THEN spec, of 60000000009] 12
  have b1: "c_pc (step ex_job (Main 60000000009) ?d) = Returned" by blast
  from b [THEN conjunct2, THEN spec, of "[Main 60000000009]"] 7
  have b2: "length (Results (c_heap (run ex_job [Main 60000000009] ?d) 0)) = 2
      \<and> list_all (\<lambda>kr. terminal (lr_Status (snd kr)))
           (Results (c_heap (run ex_job [Main 60000000009] ?d) 0))"
    by (simp add: list_all_iff)
  from th3 ex_accept ex_job_record 0 ex_preprocess 13 14 15 16
  have f: "\<forall>evs'. distinct [''en'', ''ar''] \<longrightarrow>
            length (Results (c_heap (run ex_job evs' ?f) 0)) = length [''en'', ''ar'']"
    by blast
  from f [THEN spec, of "[Main 540000000900]"] 7
  have f': "length (Results (c_heap (run ex_job [Main 540000000900] ?f) 0)) = 2"
    by simp
  from 6 a' 10 11 b1 b2 15 16 f' show ?thesis by blast
qed

text \<open>
  C3, as stated, fails. In the run \<open>ex_run_timeout\<close> the job has two distinct target
  languages and stays live (the TTL is 24 hours); the deadline of the context passes
  while the coordinator waits, and the timer of the grace period fires five seconds
  later, before the goroutine of \<open>ar\<close> has finished. When \<open>processTranslation\<close> has
  returned, the result mapping has one entry and none for \<open>ar\<close>. In the run
  \<open>ex_run_silent\<close> neither goroutine has finished when the timer fires: the coordinator
  returns with the one entry \<open>''error''\<close>, and once both goroutines have written, the
  mapping has three entries.
\<close>

theorem fan_in_timeout_counterexample:
  "distinct (j_targets ex_job) \<and> length (j_targets ex_job) = 2
   \<and> list_all (live_event ex_job) ex_run_timeout
   \<and> c_pc (run ex_job ex_run_timeout ex_c0) = Returned
   \<and> c_inflight (run ex_job ex_run_timeout ex_c0) = [''ar'']
   \<and> length (Results (c_heap (run ex_job ex_run_timeout ex_c0) 0)) = 1
   \<and> map_of (Results (c_heap (run ex_job ex_run_timeout ex_c0) 0)) ''ar'' = None
   \<and> list_all (live_event ex_job) ex_run_silent
   \<and> c_pc (run ex_job ex_run_silent ex_c0) = Returned
   \<and> map fst (Results (c_heap (run ex_job ex_run_silent ex_c0) 0)) = [''error'']
   \<and> c_inflight (run ex_job (ex_run_silent @ ex_late_both) ex_c0) = []
   \<and> map fst (Results (c_heap (run ex_job (ex_run_silent @ ex_late_both) ex_c0) 0)) =
       [''error'', ''en'', ''ar'']"
  by code_simp

section \<open>Cancellation before the fan-in completes\<close>

lemma lr_Error_failedResult [simp]: "lr_Error (failedResult msg) = msg"
  by (simp add: failedResult_def)




lemma cancel_inv_clock [simp]: "cancel_inv e j (c\<lparr>c_clock := t\<rparr>) = cancel_inv e j c"
  by (simp add: cancel_inv_def)



















lemma tail_from_wait:
  assumes "c_pc c = Wait \<or> c_pc c = Grace" and "c_ctx c \<noteq> None" and "c_clock c = t"
    and "c_timer c \<le> t"
  shows "c_pc (run j [CtxDone t, Timeout (t + graceTimeout), Main (t + graceTimeout),
                      Main (t + graceTimeout)] c) = Returned"
  using assms by (auto simp: step_def main_step_def graceTimeout_def)








section \<open>The rate limiter\<close>

text \<open>A check of the rounding: the \<^verbatim>\<open>float64\<close> nearest to one tenth is
  \<open>3602879701896397 / 2 ^ 55\<close>.\<close>

lemma float64_one_tenth: "float64 (1 / 10) = 3602879701896397 / 36028797018963968"
  by code_simp

lemma pow2_pos: "0 < pow2 e"
  by (simp add: pow2_def)

text \<open>The rounding is the one of IEEE 754: the scaled significand lies in
  \<open>[2 ^ 52, 2 ^ 53)\<close>, it is rounded by at most one half, and so the relative error of
  \<open>float64\<close> is at most \<open>2 ^ - 53\<close>.\<close>

lemma pow2_powi: "pow2 e = 2 powi e"
  by (simp add: pow2_def power_int_def inverse_eq_divide power_one_over)

lemma two_powi_diff: "(2::rat) powi (m - n) = 2 powi m / 2 powi n"
  by (rule power_int_diff) simp

lemma two_powi_add: "(2::rat) powi (m + n) = 2 powi m * 2 powi n"
  by (rule power_int_add) simp

lemma of_int_bitlen_bounds:
  assumes "0 < a"
  shows "(2::rat) powi (bitlen a - 1) \<le> of_int a" and "of_int a < (2::rat) powi (bitlen a)"
proof -
  from bitlen_bounds [OF assms]
  have l: "2 ^ nat (bitlen a - 1) \<le> a" and u: "a < 2 ^ nat (bitlen a)" by simp_all
  have p: "1 \<le> bitlen a" using assms by (simp add: bitlen_alt_def)
  have "(2::rat) powi (bitlen a - 1) = 2 ^ nat (bitlen a - 1)"
    using p by (simp add: power_int_def)
  also have "\<dots> = of_int (2 ^ nat (bitlen a - 1))" by simp
  also have "\<dots> \<le> of_int a" using l by (simp only: of_int_le_iff)
  finally show "(2::rat) powi (bitlen a - 1) \<le> of_int a" .
  have "(of_int a :: rat) < of_int (2 ^ nat (bitlen a))" using u by (simp only: of_int_less_iff)
  also have "\<dots> = 2 ^ nat (bitlen a)" by simp
  also have "\<dots> = (2::rat) powi (bitlen a)" using p by (simp add: power_int_def)
  finally show "of_int a < (2::rat) powi (bitlen a)" .
qed

lemma binade_correct:
  assumes "0 < x"
  shows "2 ^ 52 \<le> x / pow2 (binade x) \<and> x / pow2 (binade x) < 2 ^ 53"
proof -
  obtain a b where q: "quotient_of x = (a, b)" by (cases "quotient_of x")
  have b: "0 < b" using q by (rule quotient_of_denom_pos)
  have x: "x = of_int a / of_int b" using q by (rule quotient_of_div)
  have a: "0 < a"
  proof (rule ccontr)
    assume "\<not> 0 < a"
    then have "(of_int a :: rat) \<le> 0" by simp
    with b have "x \<le> 0" unfolding x by (simp add: divide_le_0_iff)
    with assms show False by simp
  qed
  define e0 where "e0 = bitlen a - bitlen b - 53"
  let ?m = "x / 2 powi e0"
  note al = of_int_bitlen_bounds(1) [OF a] and au = of_int_bitlen_bounds(2) [OF a]
    and bl = of_int_bitlen_bounds(1) [OF b] and bu = of_int_bitlen_bounds(2) [OF b]
  have bp: "(0::rat) < of_int b" using b by simp
  have ap: "(0::rat) < of_int a" using a by simp
  have lo: "(2::rat) powi (e0 + 52) < x"
  proof -
    have "e0 + 52 = (bitlen a - 1) - bitlen b" by (simp add: e0_def)
    then have "(2::rat) powi (e0 + 52) = 2 powi (bitlen a - 1) / 2 powi (bitlen b)"
      by (simp only: two_powi_diff)
    also have "\<dots> \<le> of_int a / 2 powi (bitlen b)"
      using al by (simp add: divide_right_mono)
    also have "\<dots> < of_int a / of_int b"
      using bu bp ap by (intro divide_strict_left_mono) simp_all
    finally show ?thesis by (simp add: x)
  qed
  have hi: "x < (2::rat) powi (e0 + 54)"
  proof -
    have "x = of_int a / of_int b" by (rule x)
    also have "\<dots> < 2 powi (bitlen a) / of_int b"
      using au bp by (simp add: divide_strict_right_mono)
    also have "\<dots> \<le> 2 powi (bitlen a) / 2 powi (bitlen b - 1)"
      using bl by (intro frac_le) simp_all
    also have "\<dots> = (2::rat) powi (bitlen a - (bitlen b - 1))"
      by (simp only: two_powi_diff)
    also have "bitlen a - (bitlen b - 1) = e0 + 54" by (simp add: e0_def)
    finally show ?thesis .
  qed
  have m_lo: "2 ^ 52 < ?m"
  proof -
    have "(2::rat) powi (e0 + 52) = 2 powi e0 * 2 ^ 52" by (simp add: two_powi_add)
    with lo show ?thesis by (simp add: pos_less_divide_eq mult.commute)
  qed
  have m_hi: "?m < 2 ^ 54"
  proof -
    have "(2::rat) powi (e0 + 54) = 2 powi e0 * 2 ^ 54" by (simp add: two_powi_add)
    with hi show ?thesis by (simp add: pos_divide_less_eq mult.commute)
  qed
  have half: "x / 2 powi (e0 + 1) = ?m / 2" by (simp add: two_powi_add)
  show ?thesis
  proof (cases "?m < 2 ^ 53")
    case True
    then have "binade x = e0" by (simp add: binade_def q e0_def Let_def pow2_powi)
    with True m_lo show ?thesis by (simp add: pow2_powi)
  next
    case False
    then have be: "binade x = e0 + 1" by (simp add: binade_def q e0_def Let_def pow2_powi)
    from False have "2 ^ 53 \<le> ?m" by simp
    then have "2 ^ 52 \<le> ?m / 2" by simp
    moreover from m_hi have "?m / 2 < 2 ^ 53" by simp
    ultimately show ?thesis unfolding be pow2_powi half by simp
  qed
qed


lemma round_even_error:
  "\<bar>of_int (round_even m) - m\<bar> \<le> 1 / 2"
proof -
  let ?q = "\<lfloor>m\<rfloor>"
  have l: "of_int ?q \<le> m" and u: "m < of_int ?q + 1" by linarith+
  consider "m - of_int ?q < 1 / 2" | "1 / 2 < m - of_int ?q" | "m - of_int ?q = 1 / 2"
    by linarith
  then show ?thesis
  proof cases
    case 1
    then have "round_even m = ?q" by (simp add: round_even_def Let_def)
    with 1 l show ?thesis by simp
  next
    case 2
    then have "round_even m = ?q + 1" by (simp add: round_even_def Let_def)
    with 2 u show ?thesis by simp
  next
    case 3
    then have "round_even m = ?q \<or> round_even m = ?q + 1"
      by (simp add: round_even_def Let_def)
    with 3 show ?thesis by auto
  qed
qed

lemma float64_error: "\<bar>float64 x - x\<bar> \<le> \<bar>x\<bar> / 2 ^ 53"
proof (cases "x = 0")
  case True
  then show ?thesis by (simp add: float64_def)
next
  case False
  define e where "e = binade \<bar>x\<bar>"
  define m where "m = \<bar>x\<bar> / pow2 e"
  have p: "0 < pow2 e" by (rule pow2_pos)
  from False have "0 < \<bar>x\<bar>" by simp
  from binade_correct [OF this] have m52: "2 ^ 52 \<le> m" by (simp add: m_def e_def)
  have mx: "m * pow2 e = \<bar>x\<bar>" using p by (simp add: m_def)
  have f: "float64 x = sgn x * of_int (round_even m) * pow2 e"
    using False by (simp add: float64_def Let_def e_def m_def)
  have xs: "x = sgn x * m * pow2 e"
    using mx by (simp add: mult.assoc sgn_mult_abs)
  have "float64 x - x = sgn x * (of_int (round_even m) - m) * pow2 e"
    by (subst xs, subst f) (simp add: algebra_simps)
  then have "\<bar>float64 x - x\<bar> = \<bar>of_int (round_even m) - m\<bar> * pow2 e"
    using False p by (simp add: abs_mult)
  also have "\<dots> \<le> 1 / 2 * pow2 e"
    using round_even_error [of m] p by (intro mult_right_mono) simp_all
  also have "\<dots> \<le> \<bar>x\<bar> / 2 ^ 53"
  proof -
    have "2 ^ 52 * pow2 e \<le> m * pow2 e" using m52 p by (intro mult_right_mono) simp_all
    then have "2 ^ 52 * pow2 e \<le> \<bar>x\<bar>" by (simp add: mx)
    then show ?thesis by simp
  qed
  finally show ?thesis .
qed

lemma float64_abs_le_tight: "\<bar>float64 x\<bar> \<le> \<bar>x\<bar> * (1001 / 1000)"
proof -
  have "\<bar>float64 x\<bar> \<le> \<bar>x\<bar> + \<bar>float64 x - x\<bar>" by linarith
  also have "\<dots> \<le> \<bar>x\<bar> + \<bar>x\<bar> / 2 ^ 53" using float64_error [of x] by simp
  also have "\<dots> \<le> \<bar>x\<bar> * (1001 / 1000)" by simp
  finally show ?thesis .
qed

text \<open>Bounds on the refill: with a capacity of at most \<open>2 ^ 35\<close> in absolute value, the
  refill computed from any 64-bit duration stays below \<open>5.4 * 10 ^ 18\<close>, so the sum with
  the count does not leave the 64 bits.\<close>

lemma float64_abs_bound:
  assumes "\<bar>x\<bar> \<le> B"
  shows "\<bar>float64 x\<bar> \<le> B * (1001 / 1000)"
proof -
  have "\<bar>float64 x\<bar> \<le> \<bar>x\<bar> * (1001 / 1000)" by (rule float64_abs_le_tight)
  also have "\<dots> \<le> B * (1001 / 1000)" using assms by (intro mult_right_mono) simp_all
  finally show ?thesis .
qed

lemma Sub_range: "- (2 ^ 63) \<le> Sub t u \<and> Sub t u \<le> 2 ^ 63 - 1"
  by (simp add: Sub_def Let_def)

lemma go_quo_abs:
  assumes "0 < b" shows "\<bar>go_quo a b\<bar> = \<bar>a\<bar> div b"
proof (cases "a = 0")
  case True
  then show ?thesis by (simp add: go_quo_def)
next
  case False
  have "0 \<le> \<bar>a\<bar> div b" using assms by (simp add: pos_imp_zdiv_nonneg_iff)
  then have "\<bar>\<bar>a\<bar> div b\<bar> = \<bar>a\<bar> div b" by simp
  moreover have "go_quo a b = sgn a * (\<bar>a\<bar> div b)" using assms by (simp add: go_quo_def)
  moreover have "\<bar>sgn a\<bar> = 1" using False by (simp add: sgn_if)
  ultimately show ?thesis by (simp add: abs_mult)
qed

lemma go_rem_abs: "0 < b \<Longrightarrow> \<bar>go_rem a b\<bar> < b"
proof -
  assume b: "0 < b"
  have "go_rem a b = sgn a * (\<bar>a\<bar> mod b)"
  proof (cases "a < 0")
    case True
    then have "go_rem a b = a + b * ((- a) div b)" using b by (simp add: go_rem_def go_quo_def sgn_if)
    also have "\<dots> = - ((- a) mod b)" by (simp add: minus_div_mult_eq_mod [symmetric] algebra_simps)
    finally show ?thesis using True by (simp add: sgn_if)
  next
    case False
    then have "go_rem a b = a - b * (a div b)" using b by (simp add: go_rem_def go_quo_def sgn_if)
    also have "\<dots> = a mod b" by (simp add: minus_mult_div_eq_mod)
    finally show ?thesis using False by (simp add: sgn_if)
  qed
  moreover have "0 \<le> \<bar>a\<bar> mod b" "\<bar>a\<bar> mod b < b" using b by simp_all
  ultimately show ?thesis by (simp add: abs_mult sgn_if)
qed

lemma Seconds_abs_le:
  assumes "\<bar>d\<bar> \<le> 2 ^ 63"
  shows "\<bar>Seconds d\<bar> \<le> 9250000000"
proof -
  define sec where "sec = go_quo d 1000000000"
  define nsec where "nsec = go_rem d 1000000000"
  have "\<bar>sec\<bar> = \<bar>d\<bar> div 1000000000" by (simp add: sec_def go_quo_abs)
  also have "\<dots> \<le> 2 ^ 63 div 1000000000" using assms by (intro zdiv_mono1) simp_all
  finally have s: "\<bar>sec\<bar> \<le> 9223372036" by simp
  have n: "\<bar>nsec\<bar> < 1000000000" by (simp add: nsec_def go_rem_abs)
  have a: "\<bar>float64 (of_int sec)\<bar> \<le> 9232595409"
  proof -
    have "(of_int \<bar>sec\<bar> :: rat) \<le> 9223372036" using s
      by (metis of_int_le_iff of_int_numeral)
    then have "\<bar>of_int sec :: rat\<bar> \<le> 9223372036" by simp
    from float64_abs_bound [OF this] show ?thesis by simp
  qed
  have b: "\<bar>float64 (float64 (of_int nsec) / 1000000000)\<bar> \<le> 2"
  proof -
    have "(of_int \<bar>nsec\<bar> :: rat) \<le> 1000000000" using n
      by (metis less_imp_le of_int_le_iff of_int_numeral)
    then have "\<bar>of_int nsec :: rat\<bar> \<le> 1000000000" by simp
    from float64_abs_bound [OF this]
    have "\<bar>float64 (of_int nsec)\<bar> \<le> 1001000000" by simp
    then have "\<bar>float64 (of_int nsec) / 1000000000\<bar> \<le> 1001 / 1000" by simp
    from float64_abs_bound [OF this] show ?thesis by simp
  qed
  have "\<bar>float64 (of_int sec) + float64 (float64 (of_int nsec) / 1000000000)\<bar>
      \<le> \<bar>float64 (of_int sec)\<bar> + \<bar>float64 (float64 (of_int nsec) / 1000000000)\<bar>"
    by (rule abs_triangle_ineq)
  also have "\<dots> \<le> 9232595409 + 2" using a b by (rule add_mono)
  finally have "\<bar>float64 (of_int sec) + float64 (float64 (of_int nsec) / 1000000000)\<bar>
      \<le> 9232595411" by simp
  from float64_abs_bound [OF this]
  have "\<bar>float64 (float64 (of_int sec) + float64 (float64 (of_int nsec) / 1000000000))\<bar>
      \<le> 9250000000" by simp
  then show ?thesis by (simp add: Seconds_def Let_def sec_def nsec_def)
qed

lemma tokensPerSecond_abs_le: "\<bar>tokensPerSecond rpm\<bar> \<le> of_int \<bar>rpm\<bar> / 59"
proof -
  have "\<bar>float64 (of_int rpm)\<bar> \<le> \<bar>of_int rpm :: rat\<bar> * (1001 / 1000)"
    by (rule float64_abs_le_tight)
  then have i: "\<bar>float64 (of_int rpm) / 60\<bar> \<le> of_int \<bar>rpm\<bar> * (1001 / 60000)" by simp
  have "\<bar>tokensPerSecond rpm\<bar> \<le> (of_int \<bar>rpm\<bar> * (1001 / 60000)) * (1001 / 1000)"
    unfolding tokensPerSecond_def using i by (rule float64_abs_bound)
  also have "\<dots> = of_int \<bar>rpm\<bar> * (1002001 / 60000000)" by simp
  also have "\<dots> \<le> of_int \<bar>rpm\<bar> * (1 / 59)" by (intro mult_left_mono) simp_all
  finally show ?thesis by simp
qed

lemma go_int_abs_le:
  assumes "\<bar>x\<bar> \<le> of_int B" and "B < 2 ^ 63"
  shows "\<bar>go_int x\<bar> \<le> B"
proof -
  define t where "t = (if 0 \<le> x then \<lfloor>x\<rfloor> else \<lceil>x\<rceil>)"
  have "\<bar>of_int t :: rat\<bar> \<le> \<bar>x\<bar>"
  proof (cases "0 \<le> x")
    case True
    then have "0 \<le> t" "of_int t \<le> x" by (simp_all add: t_def)
    with True show ?thesis by simp
  next
    case False
    then have "x < 0" by simp
    then have "\<lceil>x\<rceil> \<le> 0" by (simp add: ceiling_le_iff)
    with False have "t \<le> 0" "x \<le> of_int t" by (simp_all add: t_def)
    with \<open>x < 0\<close> show ?thesis by simp
  qed
  with assms have "(of_int \<bar>t\<bar> :: rat) \<le> of_int B" by simp
  then have t: "\<bar>t\<bar> \<le> B" by (simp only: of_int_le_iff)
  with assms have "go_int x = t" by (auto simp: go_int_def Let_def t_def [symmetric])
  with t show ?thesis by simp
qed

lemma tokensToAdd_bound:
  assumes d: "\<bar>d\<bar> \<le> 2 ^ 63" and r: "\<bar>rpm\<bar> \<le> 2 ^ 35"
  shows "\<bar>tokensToAdd rpm d\<bar> \<le> 5400000000000000000"
proof -
  have t: "\<bar>tokensPerSecond rpm\<bar> \<le> 2 ^ 35 / 59"
  proof -
    have "(of_int \<bar>rpm\<bar> :: rat) \<le> of_int (2 ^ 35)" using r by (simp only: of_int_le_iff)
    then have "(of_int \<bar>rpm\<bar> :: rat) / 59 \<le> 2 ^ 35 / 59" by simp
    with tokensPerSecond_abs_le [of rpm] show ?thesis by linarith
  qed
  have "\<bar>Seconds d * tokensPerSecond rpm\<bar> = \<bar>Seconds d\<bar> * \<bar>tokensPerSecond rpm\<bar>"
    by (rule abs_mult)
  also have "\<dots> \<le> 9250000000 * (2 ^ 35 / 59)"
    using Seconds_abs_le [OF d] t by (intro mult_mono) simp_all
  finally have "\<bar>Seconds d * tokensPerSecond rpm\<bar> \<le> 9250000000 * (2 ^ 35 / 59)" .
  from float64_abs_bound [OF this]
  have "\<bar>float64 (Seconds d * tokensPerSecond rpm)\<bar> \<le> 9250000000 * (2 ^ 35 / 59) * (1001 / 1000)" .
  then have "\<bar>float64 (Seconds d * tokensPerSecond rpm)\<bar> \<le> of_int 5400000000000000000"
    by simp
  then show ?thesis unfolding tokensToAdd_def by (rule go_int_abs_le) simp
qed

lemma wrap64_id: "- (2 ^ 63) \<le> x \<Longrightarrow> x < 2 ^ 63 \<Longrightarrow> wrap64 x = x"
  by (simp add: wrap64_def)

lemma tokensToAdd_zero [simp]: "tokensToAdd rpm 0 = 0"
  by (simp add: tokensToAdd_def Seconds_def go_quo_def go_rem_def float64_def go_int_def)

lemma Sub_same [simp]: "Sub now now = 0"
  by (simp add: Sub_def)

lemma refill_same_instant: "lastRefill bucket = now \<Longrightarrow> refill rpm now bucket = bucket"
  by (simp add: refill_def)

lemma Allow_fresh:
  "buckets rl ident = None \<Longrightarrow>
   Allow rl ident now =
     Allow (rl\<lparr>buckets := (buckets rl)(ident \<mapsto>
              \<lparr>tokens = requestsPerMinute rl, lastRefill = now\<rparr>)\<rparr>) ident now"
  by (simp add: Allow_def Let_def)

lemma Allow_same_instant:
  assumes "buckets rl ident = Some b" and "lastRefill b = now"
  shows "Allow rl ident now =
     (0 < tokens b,
      rl\<lparr>buckets := (buckets rl)(ident \<mapsto>
             b\<lparr>tokens := (if 0 < tokens b then tokens b - 1 else tokens b)\<rparr>)\<rparr>)"
  using assms by (simp add: Allow_def refill_same_instant)

lemma fst_burst_Suc:
  "fst (burst rl ident now (Suc n)) =
     fst (Allow rl ident now) # fst (burst (snd (Allow rl ident now)) ident now n)"
  by (simp split: prod.splits)

lemma burst_same_instant:
  "buckets rl ident = Some b \<Longrightarrow> lastRefill b = now \<Longrightarrow> tokens b = int k \<Longrightarrow>
   fst (burst rl ident now n) = replicate (min n k) True @ replicate (n - k) False"
proof (induction n arbitrary: rl b k)
  case 0
  then show ?case by simp
next
  case (Suc n)
  let ?b = "b\<lparr>tokens := (if 0 < tokens b then tokens b - 1 else tokens b)\<rparr>"
  let ?rl = "rl\<lparr>buckets := (buckets rl)(ident \<mapsto> ?b)\<rparr>"
  have a: "Allow rl ident now = (0 < tokens b, ?rl)"
    using Suc.prems by (simp add: Allow_same_instant)
  have "buckets ?rl ident = Some ?b" "lastRefill ?b = now" "tokens ?b = int (k - 1)"
    using Suc.prems by auto
  then have ih: "fst (burst ?rl ident now n) =
      replicate (min n (k - 1)) True @ replicate (n - (k - 1)) False"
    by (rule Suc.IH)
  show ?case
  proof (cases k)
    case 0
    then show ?thesis using a ih Suc.prems
      by (simp add: fst_burst_Suc del: burst.simps)
  next
    case (Suc k')
    then show ?thesis using a ih Suc.prems
      by (simp add: fst_burst_Suc del: burst.simps)
  qed
qed

text \<open>
  C7, amended. For a capacity \<open>C > 0\<close> and an identifier without a bucket, a burst of
  \<open>C + 1\<close> calls at one instant is allowed exactly \<open>C\<close> times and then rejected; the call
  for an identifier without a bucket behaves as the call on a full bucket stamped with
  the current instant; and for an existing bucket the refill is \<open>int\<close> of the \<^verbatim>\<open>float64\<close>
  product of the elapsed seconds and \<^verbatim>\<open>float64(C) / 60.0\<close>, added only when positive,
  the 64-bit sum capped at \<open>C\<close>, the call being allowed, and one token taken, exactly
  when the count after the refill is positive.
\<close>

theorem burst_allows_capacity:
  "(0 < C \<and> requestsPerMinute rl = C \<and> buckets rl ident = None \<longrightarrow>
      fst (burst rl ident now (nat C + 1)) = replicate (nat C) True @ [False])
   \<and> (buckets rl ident = None \<longrightarrow>
        Allow rl ident now =
          Allow (rl\<lparr>buckets := (buckets rl)(ident \<mapsto>
                   \<lparr>tokens = requestsPerMinute rl, lastRefill = now\<rparr>)\<rparr>) ident now)
   \<and> (buckets rl ident = Some b \<and> requestsPerMinute rl = C
        \<and> add = go_int (float64 (Seconds (Sub now (lastRefill b)) * float64 (float64 (of_int C) / 60)))
        \<and> t = (if 0 < add then (if C < wrap64 (tokens b + add) then C else wrap64 (tokens b + add))
                else tokens b) \<longrightarrow>
        fst (Allow rl ident now) = (0 < t)
        \<and> map_option tokens (buckets (snd (Allow rl ident now)) ident) =
            Some (if 0 < t then t - 1 else t))"
proof (intro conjI impI)
  assume a: "0 < C \<and> requestsPerMinute rl = C \<and> buckets rl ident = None"
  let ?b = "\<lparr>tokens = C, lastRefill = now\<rparr>"
  let ?rl = "rl\<lparr>buckets := (buckets rl)(ident \<mapsto> ?b)\<rparr>"
  have "fst (burst rl ident now (Suc (nat C))) = fst (burst ?rl ident now (Suc (nat C)))"
    using a Allow_fresh [of rl ident now] by (simp add: fst_burst_Suc del: burst.simps)
  also have "\<dots> = replicate (min (Suc (nat C)) (nat C)) True @ replicate (Suc (nat C) - nat C) False"
    using a by (intro burst_same_instant [of _ _ ?b]) simp_all
  also have "\<dots> = replicate (nat C) True @ [False]" by (simp add: Suc_diff_le)
  finally show "fst (burst rl ident now (nat C + 1)) = replicate (nat C) True @ [False]" by simp
next
  assume "buckets rl ident = None"
  then show "Allow rl ident now =
          Allow (rl\<lparr>buckets := (buckets rl)(ident \<mapsto>
                   \<lparr>tokens = requestsPerMinute rl, lastRefill = now\<rparr>)\<rparr>) ident now"
    by (rule Allow_fresh)
next
  assume a: "buckets rl ident = Some b \<and> requestsPerMinute rl = C
        \<and> add = go_int (float64 (Seconds (Sub now (lastRefill b)) * float64 (float64 (of_int C) / 60)))
        \<and> t = (if 0 < add then (if C < wrap64 (tokens b + add) then C else wrap64 (tokens b + add))
                else tokens b)"
  then have t: "tokens (refill C now b) = t"
    by (simp add: refill_def tokensToAdd_def tokensPerSecond_def Let_def)
  from a t show "fst (Allow rl ident now) = (0 < t)"
    by (simp add: Allow_def Let_def)
  from a t show "map_option tokens (buckets (snd (Allow rl ident now)) ident) =
            Some (if 0 < t then t - 1 else t)"
    by (simp add: Allow_def Let_def)
qed

text \<open>
  C7, as stated, fails in its refill formula: with \<open>C = 123\<close> and 60 seconds elapsed,
  \<open>floor (60 * 123 / 60)\<close> is 123, but \<^verbatim>\<open>float64(123) / 60.0\<close> is rounded below \<open>2.05\<close> and the
  product with \<open>60\<close> below \<open>123\<close>, so the code adds 122 tokens: an empty bucket holds 122
  tokens, not 123, after the refill.
\<close>

theorem refill_not_floor_counterexample:
  "tokensToAdd 123 (Sub 60000000000 0) = 122
   \<and> \<lfloor>(60000000000 / 1000000000 :: rat) * (123 / 60)\<rfloor> = 123
   \<and> tokens (refill 123 60000000000 \<lparr>tokens = 0, lastRefill = 0\<rparr>) = 122"
  by code_simp


theorem burst_allows_capacity_witness:
  "fst (burst (NewRateLimiter 3) ''10.0.0.1'' 1000 4) = [True, True, True, False]
   \<and> fst (Allow \<lparr>requestsPerMinute = 123,
                  buckets = [''10.0.0.1'' \<mapsto> \<lparr>tokens = 0, lastRefill = 0\<rparr>]\<rparr>
             ''10.0.0.1'' 60000000000)
   \<and> map_option tokens
        (buckets (snd (Allow \<lparr>requestsPerMinute = 123,
                                buckets = [''10.0.0.1'' \<mapsto> \<lparr>tokens = 0, lastRefill = 0\<rparr>]\<rparr>
                         ''10.0.0.1'' 60000000000)) ''10.0.0.1'') = Some 121"
proof -
  let ?rl = "\<lparr>requestsPerMinute = 123,
              buckets = [''10.0.0.1'' \<mapsto> \<lparr>tokens = 0, lastRefill = 0\<rparr>]\<rparr>"
  have h1: "0 < (3::int) \<and> requestsPerMinute (NewRateLimiter 3) = 3
            \<and> buckets (NewRateLimiter 3) ''10.0.0.1'' = None"
    by (simp add: NewRateLimiter_def)
  have a: "fst (burst (NewRateLimiter 3) ''10.0.0.1'' 1000 (nat 3 + 1)) =
             replicate (nat 3) True @ [False]"
    using burst_allows_capacity [of 3 "NewRateLimiter 3" "''10.0.0.1''" 1000, THEN conjunct1,
        THEN mp, OF h1] .
  have add: "go_int (float64 (Seconds (Sub 60000000000 0) * float64 (float64 (of_int 123) / 60)))
             = 122"
    by code_simp
  have w: "wrap64 122 = 122" by (simp add: wrap64_def)
  have h3: "buckets ?rl ''10.0.0.1'' = Some \<lparr>tokens = 0, lastRefill = 0\<rparr>
      \<and> requestsPerMinute ?rl = 123
      \<and> 122 = go_int (float64 (Seconds (Sub 60000000000 (lastRefill \<lparr>tokens = 0, lastRefill = 0\<rparr>))
                  * float64 (float64 (of_int 123) / 60)))
      \<and> 122 = (if 0 < (122::int)
                then (if 123 < wrap64 (tokens \<lparr>tokens = 0, lastRefill = 0\<rparr> + 122) then 123
                      else wrap64 (tokens \<lparr>tokens = 0, lastRefill = 0\<rparr> + 122))
                else tokens \<lparr>tokens = 0, lastRefill = 0\<rparr>)"
    using add w by simp
  note b = burst_allows_capacity [where C = 123 and rl = ?rl and ident = "''10.0.0.1''"
      and b = "\<lparr>tokens = 0, lastRefill = 0\<rparr>" and add = 122 and now = 60000000000 and t = 122,
      THEN conjunct2, THEN conjunct2, THEN mp, OF h3]
  from a b show ?thesis by (simp add: numeral_eq_Suc)
qed

section \<open>The token count of a bucket\<close>

lemma refill_tokens:
  assumes b: "0 \<le> tokens bucket" and f: "refill_fits rpm now bucket"
    and add: "add = tokensToAdd rpm (Sub now (lastRefill bucket))"
  shows "refill rpm now bucket =
     (if 0 < add then \<lparr>tokens = min rpm (tokens bucket + add), lastRefill = now\<rparr> else bucket)"
proof (cases "0 < add")
  case False
  then show ?thesis by (simp add: refill_def Let_def add)
next
  case True
  with f have "tokens bucket + add < 2 ^ 63"
    by (simp add: refill_fits_def Let_def add)
  with b True have "wrap64 (tokens bucket + add) = tokens bucket + add"
    by (intro wrap64_id) simp_all
  with True show ?thesis
    by (simp add: refill_def Let_def add [symmetric] min_def)
qed

lemma refill_range:
  assumes r: "0 \<le> rpm" and b: "0 \<le> tokens bucket" "tokens bucket \<le> rpm"
    and f: "refill_fits rpm now bucket"
  shows "0 \<le> tokens (refill rpm now bucket) \<and> tokens (refill rpm now bucket) \<le> rpm"
  using r b by (simp add: refill_tokens [OF b(1) f refl])

lemma small_capacity_fits:
  assumes r: "0 \<le> rpm" "rpm \<le> 2 ^ 35" and b: "0 \<le> tokens bucket" "tokens bucket \<le> rpm"
  shows "refill_fits rpm now bucket"
proof -
  define add where "add = tokensToAdd rpm (Sub now (lastRefill bucket))"
  have "\<bar>Sub now (lastRefill bucket)\<bar> \<le> 2 ^ 63"
    using Sub_range [of now "lastRefill bucket"] by linarith
  moreover have "\<bar>rpm\<bar> \<le> 2 ^ 35" using r by simp
  ultimately have a: "\<bar>add\<bar> \<le> 5400000000000000000"
    unfolding add_def by (rule tokensToAdd_bound)
  with b r have "tokens bucket + add < 2 ^ 63" by simp
  then show ?thesis by (simp add: refill_fits_def Let_def add_def)
qed

lemma Allow_requestsPerMinute [simp]:
  "requestsPerMinute (snd (Allow rl identifier now)) = requestsPerMinute rl"
  by (simp add: Allow_def Let_def)

lemma cleanup_requestsPerMinute [simp]:
  "requestsPerMinute (cleanup rl now) = requestsPerMinute rl"
  by (simp add: cleanup_def Let_def)

lemma limiter_run_requestsPerMinute [simp]:
  "requestsPerMinute (limiter_run rl cs) = requestsPerMinute rl"
  by (induction rl cs rule: limiter_run.induct) auto

lemma Allow_first:
  assumes "buckets rl ident = None"
  shows "Allow rl ident now =
     (0 < requestsPerMinute rl,
      rl\<lparr>buckets := (buckets rl)(ident \<mapsto>
             \<lparr>tokens = (if 0 < requestsPerMinute rl then requestsPerMinute rl - 1
                         else requestsPerMinute rl),
              lastRefill = now\<rparr>)\<rparr>)"
  using assms by (simp add: Allow_def Let_def refill_same_instant)

lemma Allow_later:
  assumes s: "buckets rl ident = Some b" and b: "0 \<le> tokens b"
    and f: "refill_fits (requestsPerMinute rl) now b"
    and add: "add = tokensToAdd (requestsPerMinute rl) (Sub now (lastRefill b))"
    and t: "t = (if 0 < add then min (requestsPerMinute rl) (tokens b + add) else tokens b)"
  shows "Allow rl ident now =
     (0 < t,
      rl\<lparr>buckets := (buckets rl)(ident \<mapsto>
             \<lparr>tokens = (if 0 < t then t - 1 else t),
              lastRefill = (if 0 < add then now else lastRefill b)\<rparr>)\<rparr>)"
proof -
  have upd: "b\<lparr>tokens := x\<rparr> = \<lparr>tokens = x, lastRefill = lastRefill b\<rparr>" for x
    by (cases b) simp
  have same: "\<lparr>tokens = tokens b, lastRefill = lastRefill b\<rparr> = b"
    by (cases b) simp
  note rf = refill_tokens [OF b f add]
  show ?thesis
  proof (cases "0 < add")
    case True
    then show ?thesis by (simp add: Allow_def Let_def s t rf)
  next
    case False
    then have "refill (requestsPerMinute rl) now b = b" and "t = tokens b"
      using rf t by simp_all
    then show ?thesis using False by (simp add: Allow_def Let_def s upd same)
  qed
qed

lemma Allow_in_range:
  assumes r: "0 \<le> requestsPerMinute rl" and inv: "buckets_in_range rl"
    and f: "case buckets rl ident of
              None \<Rightarrow> True
            | Some b \<Rightarrow> refill_fits (requestsPerMinute rl) now b"
  shows "buckets_in_range (snd (Allow rl ident now))"
proof (cases "buckets rl ident")
  case None
  then show ?thesis using r inv by (auto simp: Allow_first buckets_in_range_def)
next
  case (Some b)
  with inv have b: "0 \<le> tokens b" "tokens b \<le> requestsPerMinute rl"
    by (simp_all add: buckets_in_range_def)
  from f Some have fit: "refill_fits (requestsPerMinute rl) now b" by simp
  show ?thesis
    using r inv b
    by (auto simp: Allow_later [OF Some b(1) fit refl refl] buckets_in_range_def)
qed

lemma cleanup_in_range: "buckets_in_range rl \<Longrightarrow> buckets_in_range (cleanup rl now)"
  by (auto simp: buckets_in_range_def cleanup_def Let_def split: option.splits if_splits)

lemma limiter_run_in_range:
  "0 \<le> requestsPerMinute rl \<Longrightarrow> buckets_in_range rl \<Longrightarrow>
   requestsPerMinute rl \<le> 2 ^ 35 \<or> refills_fit rl cs \<Longrightarrow>
   buckets_in_range (limiter_run rl cs)"
proof (induction rl cs rule: limiter_run.induct)
  case (1 rl)
  then show ?case by simp
next
  case (2 rl ident now cs)
  have f: "case buckets rl ident of
              None \<Rightarrow> True
            | Some b \<Rightarrow> refill_fits (requestsPerMinute rl) now b"
  proof (cases "buckets rl ident")
    case None
    then show ?thesis by simp
  next
    case (Some b)
    with "2.prems"(2) have b: "0 \<le> tokens b" "tokens b \<le> requestsPerMinute rl"
      by (simp_all add: buckets_in_range_def)
    from "2.prems"(3) show ?thesis
    proof
      assume "requestsPerMinute rl \<le> 2 ^ 35"
      with "2.prems"(1) b show ?thesis by (simp add: Some small_capacity_fits)
    next
      assume "refills_fit rl (CallAllow ident now # cs)"
      with Some show ?thesis by simp
    qed
  qed
  have "buckets_in_range (snd (Allow rl ident now))"
    using "2.prems"(1,2) f by (rule Allow_in_range)
  moreover have "requestsPerMinute (snd (Allow rl ident now)) \<le> 2 ^ 35
      \<or> refills_fit (snd (Allow rl ident now)) cs"
    using "2.prems"(3) by auto
  ultimately show ?case using "2.prems"(1) "2.IH" by simp
next
  case (3 rl now cs)
  have "buckets_in_range (cleanup rl now)" using "3.prems"(2) by (rule cleanup_in_range)
  moreover have "requestsPerMinute (cleanup rl now) \<le> 2 ^ 35 \<or> refills_fit (cleanup rl now) cs"
    using "3.prems"(3) by auto
  ultimately show ?case using "3.prems"(1) "3.IH" by simp
qed

text \<open>
  C8, amended. A limiter is created with a capacity \<open>rpm\<close> that is not negative, and
  undergoes any sequence of \<open>Allow\<close> calls, for any identifiers, and of \<open>cleanup\<close> passes,
  at any instants, in which the 64-bit sum of a bucket's count and its refill does not
  overflow; with a capacity of at most \<open>2 ^ 35\<close> no sequence overflows. Then:
  \<^item> every bucket holds a token count between 0 and the capacity;
  \<^item> a call for an identifier without a bucket finds a full one: it is allowed exactly
    when the capacity is positive, and leaves the capacity less the token it took;
  \<^item> a call on an existing bucket (whose sum does not overflow) adds
    \<open>tokensToAdd\<close> of the time elapsed since the last refill, only when that is
    positive, and caps the count at the capacity; the count \<open>t\<close> so reached lies between
    0 and the capacity; the call is allowed, and takes one token, exactly when \<open>t\<close> is
    positive, and leaves the count as it is otherwise.
\<close>

theorem token_count_in_range:
  "0 \<le> rpm \<and> (rpm \<le> 2 ^ 35 \<or> refills_fit (NewRateLimiter rpm) cs)
   \<and> rl = limiter_run (NewRateLimiter rpm) cs
   \<longrightarrow> requestsPerMinute rl = rpm
     \<and> (\<forall>identifier b. buckets rl identifier = Some b \<longrightarrow> 0 \<le> tokens b \<and> tokens b \<le> rpm)
     \<and> (\<forall>identifier now. buckets rl identifier = None \<longrightarrow>
          Allow rl identifier now =
            (0 < rpm,
             rl\<lparr>buckets := (buckets rl)(identifier \<mapsto>
                    \<lparr>tokens = (if 0 < rpm then rpm - 1 else rpm), lastRefill = now\<rparr>)\<rparr>))
     \<and> (\<forall>identifier now b add t.
          buckets rl identifier = Some b
          \<and> add = tokensToAdd rpm (Sub now (lastRefill b))
          \<and> (rpm \<le> 2 ^ 35 \<or> refill_fits rpm now b)
          \<and> t = (if 0 < add then min rpm (tokens b + add) else tokens b) \<longrightarrow>
          0 \<le> t \<and> t \<le> rpm
          \<and> Allow rl identifier now =
              (0 < t,
               rl\<lparr>buckets := (buckets rl)(identifier \<mapsto>
                      \<lparr>tokens = (if 0 < t then t - 1 else t),
                       lastRefill = (if 0 < add then now else lastRefill b)\<rparr>)\<rparr>))"
  (is "?H \<longrightarrow> ?C")
proof
  assume a: ?H
  then have r: "0 \<le> rpm" and rl: "rl = limiter_run (NewRateLimiter rpm) cs" by simp_all
  have rpm: "requestsPerMinute rl = rpm" by (simp add: rl NewRateLimiter_def)
  have "buckets_in_range (NewRateLimiter rpm)"
    by (simp add: buckets_in_range_def NewRateLimiter_def)
  with a have inv: "buckets_in_range rl"
    unfolding rl by (intro limiter_run_in_range) (auto simp: NewRateLimiter_def)
  have range: "0 \<le> tokens b \<and> tokens b \<le> rpm" if "buckets rl ident = Some b"
    for ident b
    using inv that by (auto simp: buckets_in_range_def rpm)
  have first: "Allow rl ident now =
            (0 < rpm,
             rl\<lparr>buckets := (buckets rl)(ident \<mapsto>
                    \<lparr>tokens = (if 0 < rpm then rpm - 1 else rpm), lastRefill = now\<rparr>)\<rparr>)"
    if "buckets rl ident = None" for ident now
    using Allow_first [OF that, of now] by (simp add: rpm)
  have later: "0 \<le> t \<and> t \<le> rpm
          \<and> Allow rl ident now =
              (0 < t,
               rl\<lparr>buckets := (buckets rl)(ident \<mapsto>
                      \<lparr>tokens = (if 0 < t then t - 1 else t),
                       lastRefill = (if 0 < add then now else lastRefill b)\<rparr>)\<rparr>)"
    if h: "buckets rl ident = Some b
          \<and> add = tokensToAdd rpm (Sub now (lastRefill b))
          \<and> (rpm \<le> 2 ^ 35 \<or> refill_fits rpm now b)
          \<and> t = (if 0 < add then min rpm (tokens b + add) else tokens b)"
    for ident now b add t
  proof -
    from h have s: "buckets rl ident = Some b" by simp
    note b = range [OF s]
    from h b r have fit: "refill_fits (requestsPerMinute rl) now b"
      unfolding rpm by (auto intro: small_capacity_fits)
    from h have add: "add = tokensToAdd (requestsPerMinute rl) (Sub now (lastRefill b))"
      and t: "t = (if 0 < add then min (requestsPerMinute rl) (tokens b + add) else tokens b)"
      by (simp_all add: rpm)
    have "tokens (refill rpm now b) = t"
      using refill_tokens [OF b [THEN conjunct1] fit add] t by (auto simp: rpm)
    moreover have "0 \<le> tokens (refill rpm now b) \<and> tokens (refill rpm now b) \<le> rpm"
      using r b fit by (intro refill_range) (simp_all add: rpm)
    ultimately have "0 \<le> t \<and> t \<le> rpm" by simp
    with Allow_later [OF s b [THEN conjunct1] fit add t] show ?thesis by simp
  qed
  from rpm range first later show ?C by blast
qed

text \<open>
  C8, as stated, fails, in two ways. \<^verbatim>\<open>RATE_LIMIT_RPM\<close> is parsed and not validated. With
  the capacity \<open>2 ^ 62\<close> and two calls 90 seconds apart, the second call adds one and a
  half times the capacity to a count one below it; the 64-bit sum wraps around, and the
  bucket holds \<open>-6917529027641081857\<close>. With the capacity \<open>-1\<close> the first call leaves
  the count \<open>-1\<close>. In both, the count is outside \<open>[0, capacity]\<close>.
\<close>

theorem token_count_overflow_counterexample:
  "buckets (limiter_run (NewRateLimiter 4611686018427387904)
        [CallAllow ''10.0.0.1'' 0, CallAllow ''10.0.0.1'' 90000000000]) ''10.0.0.1''
     = Some \<lparr>tokens = - 6917529027641081857, lastRefill = 90000000000\<rparr>
   \<and> \<not> refills_fit (NewRateLimiter 4611686018427387904)
        [CallAllow ''10.0.0.1'' 0, CallAllow ''10.0.0.1'' 90000000000]
   \<and> buckets (limiter_run (NewRateLimiter (- 1)) [CallAllow ''10.0.0.1'' 0]) ''10.0.0.1''
     = Some \<lparr>tokens = - 1, lastRefill = 0\<rparr>"
  by code_simp

theorem token_count_in_range_witness:
  "buckets (limiter_run (NewRateLimiter 2)
      [CallAllow ''10.0.0.1'' 0, CallAllow ''10.0.0.1'' 0, CallAllow ''10.0.0.1'' 0,
       CallAllow ''10.0.0.1'' 30000000000, CallCleanup 300000000000])
      ''10.0.0.1'' = Some \<lparr>tokens = 0, lastRefill = 30000000000\<rparr>
   \<and> 0 \<le> tokens \<lparr>tokens = 0, lastRefill = 30000000000\<rparr>
   \<and> tokens \<lparr>tokens = 0, lastRefill = 30000000000\<rparr> \<le> 2
   \<and> fst (Allow (limiter_run (NewRateLimiter 2)
      [CallAllow ''10.0.0.1'' 0, CallAllow ''10.0.0.1'' 0, CallAllow ''10.0.0.1'' 0,
       CallAllow ''10.0.0.1'' 30000000000, CallCleanup 300000000000])
      ''10.0.0.1'' 45000000000) = False
   \<and> buckets (limiter_run (NewRateLimiter 2)
      [CallAllow ''10.0.0.1'' 0, CallAllow ''10.0.0.1'' 30000000000,
       CallCleanup 4000000000000]) ''10.0.0.1'' = None
   \<and> fst (Allow (limiter_run (NewRateLimiter 2)
      [CallAllow ''10.0.0.1'' 0, CallAllow ''10.0.0.1'' 30000000000,
       CallCleanup 4000000000000]) ''10.0.0.1'' 4000000000001) = True
   \<and> refills_fit (NewRateLimiter 1099511627776)
      [CallAllow ''10.0.0.1'' 0, CallAllow ''10.0.0.1'' 90000000000]
   \<and> buckets (limiter_run (NewRateLimiter 1099511627776)
      [CallAllow ''10.0.0.1'' 0, CallAllow ''10.0.0.1'' 90000000000]) ''10.0.0.1''
      = Some \<lparr>tokens = 1099511627775, lastRefill = 90000000000\<rparr>"
proof -
  let ?cs1 = "[CallAllow ''10.0.0.1'' 0, CallAllow ''10.0.0.1'' 0, CallAllow ''10.0.0.1'' 0,
       CallAllow ''10.0.0.1'' 30000000000, CallCleanup 300000000000]"
  let ?cs2 = "[CallAllow ''10.0.0.1'' 0, CallAllow ''10.0.0.1'' 30000000000,
       CallCleanup 4000000000000]"
  let ?cs3 = "[CallAllow ''10.0.0.1'' 0, CallAllow ''10.0.0.1'' 90000000000]"
  let ?b = "\<lparr>tokens = 0, lastRefill = 30000000000\<rparr>"
  have e1: "buckets (limiter_run (NewRateLimiter 2) ?cs1) ''10.0.0.1'' = Some ?b"
    by code_simp
  have e2: "buckets (limiter_run (NewRateLimiter 2) ?cs2) ''10.0.0.1'' = None"
    by code_simp
  have e3: "refills_fit (NewRateLimiter 1099511627776) ?cs3"
    by code_simp
  have e4: "buckets (limiter_run (NewRateLimiter 1099511627776) ?cs3) ''10.0.0.1''
      = Some \<lparr>tokens = 1099511627775, lastRefill = 90000000000\<rparr>"
    by code_simp
  have add: "tokensToAdd 2 (Sub 45000000000 (lastRefill ?b)) = 0"
    by code_simp
  have h1: "(0::int) \<le> 2 \<and> ((2::int) \<le> 2 ^ 35 \<or> refills_fit (NewRateLimiter 2) ?cs1)
      \<and> limiter_run (NewRateLimiter 2) ?cs1 = limiter_run (NewRateLimiter 2) ?cs1"
    by simp
  have h2: "(0::int) \<le> 2 \<and> ((2::int) \<le> 2 ^ 35 \<or> refills_fit (NewRateLimiter 2) ?cs2)
      \<and> limiter_run (NewRateLimiter 2) ?cs2 = limiter_run (NewRateLimiter 2) ?cs2"
    by simp
  have h3: "(0::int) \<le> 1099511627776
      \<and> ((1099511627776::int) \<le> 2 ^ 35 \<or> refills_fit (NewRateLimiter 1099511627776) ?cs3)
      \<and> limiter_run (NewRateLimiter 1099511627776) ?cs3
          = limiter_run (NewRateLimiter 1099511627776) ?cs3"
    using e3 by simp
  note t1 = token_count_in_range [where rpm = 2 and cs = ?cs1
      and rl = "limiter_run (NewRateLimiter 2) ?cs1", THEN mp, OF h1]
  note t2 = token_count_in_range [where rpm = 2 and cs = ?cs2
      and rl = "limiter_run (NewRateLimiter 2) ?cs2", THEN mp, OF h2]
  note t3 = token_count_in_range [where rpm = 1099511627776 and cs = ?cs3
      and rl = "limiter_run (NewRateLimiter 1099511627776) ?cs3", THEN mp, OF h3]
  from t1 [THEN conjunct2, THEN conjunct1, THEN spec, THEN spec, THEN mp, OF e1]
  have a: "0 \<le> tokens ?b \<and> tokens ?b \<le> 2" .
  have "Allow (limiter_run (NewRateLimiter 2) ?cs1) ''10.0.0.1'' 45000000000 =
      (0 < (0::int),
       (limiter_run (NewRateLimiter 2) ?cs1)\<lparr>buckets :=
          (buckets (limiter_run (NewRateLimiter 2) ?cs1))(''10.0.0.1'' \<mapsto>
             \<lparr>tokens = (if 0 < (0::int) then 0 - 1 else 0),
              lastRefill = (if 0 < (0::int) then 45000000000 else lastRefill ?b)\<rparr>)\<rparr>)"
    using t1 [THEN conjunct2, THEN conjunct2, THEN conjunct2, THEN spec, of "''10.0.0.1''",
        THEN spec, of 45000000000, THEN spec, of ?b, THEN spec, of 0, THEN spec, of 0] e1 add
    by simp
  then have b: "fst (Allow (limiter_run (NewRateLimiter 2) ?cs1) ''10.0.0.1'' 45000000000)
      = False" by simp
  from t2 [THEN conjunct2, THEN conjunct2, THEN conjunct1, THEN spec, of "''10.0.0.1''",
      THEN spec, of 4000000000001, THEN mp, OF e2]
  have c: "fst (Allow (limiter_run (NewRateLimiter 2) ?cs2) ''10.0.0.1'' 4000000000001) = True"
    by simp
  from t3 [THEN conjunct2, THEN conjunct1, THEN spec, THEN spec, THEN mp, OF e4]
  have d: "tokens \<lparr>tokens = 1099511627775, lastRefill = 90000000000\<rparr> \<le> 1099511627776"
    by simp
  from e1 a b e2 c e3 e4 show ?thesis by blast
qed


end
